theory Spec2Isabelle
  imports Main
begin

section \<open>Client Ack File Processor: strings, cells and frames\<close>

text \<open>
  The program is Python on pandas. A Python \<open>str\<close> is a sequence of code points; here it
  is a \<^typ>\<open>string\<close> whose characters are read as the code points U+0000 to U+00FF, and the
  character classes below are Python's on that range.
\<close>

subsection \<open>Python string methods\<close>

definition isspace_char :: "char \<Rightarrow> bool" where
  \<comment> \<open>the characters \<open>str.strip()\<close> removes: TAB to CR, FS to US, space, NEL, NBSP\<close>
  "isspace_char c = (c \<in> set [CHR 0x09, CHR 0x0A, CHR 0x0B, CHR 0x0C, CHR 0x0D,
     CHR 0x1C, CHR 0x1D, CHR 0x1E, CHR 0x1F, CHR 0x20, CHR 0x85, CHR 0xA0])"

definition str_strip :: "string \<Rightarrow> string" where
  "str_strip s = rev (dropWhile isspace_char (rev (dropWhile isspace_char s)))"

definition isdecimal_char :: "char \<Rightarrow> bool" where
  "isdecimal_char c = (c \<in> set ''0123456789'')"

definition isdigit_char :: "char \<Rightarrow> bool" where
  \<comment> \<open>\<open>str.isdigit\<close> also accepts the superscripts U+00B2, U+00B3 and U+00B9\<close>
  "isdigit_char c = (isdecimal_char c \<or> c \<in> set [CHR 0xB2, CHR 0xB3, CHR 0xB9])"

definition str_isdigit :: "string \<Rightarrow> bool" where
  "str_isdigit s = (s \<noteq> [] \<and> list_all isdigit_char s)"

definition digit_value :: "char \<Rightarrow> int" where
  "digit_value c = (case map_of (zip ''0123456789'' [0, 1, 2, 3, 4, 5, 6, 7, 8, 9]) c of
     Some d \<Rightarrow> d | None \<Rightarrow> 0)"

definition digit_char :: "nat \<Rightarrow> char" where
  "digit_char d = (case map_of (zip [0, 1, 2, 3, 4, 5, 6, 7, 8, 9] ''0123456789'') d of
     Some c \<Rightarrow> c | None \<Rightarrow> CHR ''0'')"

fun str_of_nat :: "nat \<Rightarrow> string" where
  "str_of_nat n = (if n < 10 then [digit_char n] else str_of_nat (n div 10) @ [digit_char (n mod 10)])"

declare str_of_nat.simps [simp del]

definition str_of_int :: "int \<Rightarrow> string" where
  \<comment> \<open>\<open>str(n)\<close> of a Python int\<close>
  "str_of_int n = (if n < 0 then CHR ''-'' # str_of_nat (nat (- n)) else str_of_nat (nat n))"

definition lower_letters :: string where
  "lower_letters = ''abcdefghijklmnopqrstuvwxyz'' @
     [CHR 0xE0, CHR 0xE1, CHR 0xE2, CHR 0xE3, CHR 0xE4, CHR 0xE5, CHR 0xE6, CHR 0xE7,
      CHR 0xE8, CHR 0xE9, CHR 0xEA, CHR 0xEB, CHR 0xEC, CHR 0xED, CHR 0xEE, CHR 0xEF,
      CHR 0xF0, CHR 0xF1, CHR 0xF2, CHR 0xF3, CHR 0xF4, CHR 0xF5, CHR 0xF6,
      CHR 0xF8, CHR 0xF9, CHR 0xFA, CHR 0xFB, CHR 0xFC, CHR 0xFD, CHR 0xFE]"

definition upper_letters :: string where
  "upper_letters = ''ABCDEFGHIJKLMNOPQRSTUVWXYZ'' @
     [CHR 0xC0, CHR 0xC1, CHR 0xC2, CHR 0xC3, CHR 0xC4, CHR 0xC5, CHR 0xC6, CHR 0xC7,
      CHR 0xC8, CHR 0xC9, CHR 0xCA, CHR 0xCB, CHR 0xCC, CHR 0xCD, CHR 0xCE, CHR 0xCF,
      CHR 0xD0, CHR 0xD1, CHR 0xD2, CHR 0xD3, CHR 0xD4, CHR 0xD5, CHR 0xD6,
      CHR 0xD8, CHR 0xD9, CHR 0xDA, CHR 0xDB, CHR 0xDC, CHR 0xDD, CHR 0xDE]"

definition upper_char :: "char \<Rightarrow> string" where
  \<comment> \<open>U+00DF becomes SS. The upper-case forms of U+00B5 and U+00FF lie beyond U+00FF; they
      are left as they are, which no comparison below can tell from Python's result, since
      neither form is a letter of TRUE or COSIGN.\<close>
  "upper_char c = (case map_of (zip lower_letters upper_letters) c of
     Some u \<Rightarrow> [u] | None \<Rightarrow> if c = CHR 0xDF then ''SS'' else [c])"

definition str_upper :: "string \<Rightarrow> string" where
  "str_upper s = concat (map upper_char s)"

subsection \<open>Cells and errors\<close>

text \<open>
  \<open>pd.read_csv\<close> with default types gives a cell that is a str, an int, a bool or the
  float NaN of an empty field. Floats other than NaN are left out: their string form is
  the shortest round-trip representation of an IEEE double.
\<close>

datatype cell = Str string | Intg int | Bool bool | NaN

datatype error = ValueError | TypeError | KeyError string

definition astype_str :: "cell \<Rightarrow> string" where
  \<comment> \<open>\<open>str(v)\<close>, which is what \<open>.astype(str)\<close> applies to each element\<close>
  "astype_str v = (case v of Str s \<Rightarrow> s | Intg n \<Rightarrow> str_of_int n
     | Bool b \<Rightarrow> (if b then ''True'' else ''False'') | NaN \<Rightarrow> ''nan'')"

subsection \<open>Reason Code Translator\<close>

definition code_map :: "int \<rightharpoonup> string" where
  "code_map = [1 \<mapsto> ''Sales'', 2 \<mapsto> ''Payments'', 3 \<mapsto> ''Cancels'', 5 \<mapsto> ''Sales'']"

definition int_of_digits :: "string \<Rightarrow> error + int" where
  \<comment> \<open>\<open>int(s)\<close> for a string that passed \<open>isdigit\<close>: base 10 reads decimal digits only and
      raises ValueError on a superscript digit\<close>
  "int_of_digits s = (if list_all isdecimal_char s
     then Inr (foldl (\<lambda>acc c. 10 * acc + digit_value c) 0 s) else Inl ValueError)"

definition dict_key :: "cell \<Rightarrow> int option" where
  \<comment> \<open>the int a key hashes and compares equal to: \<open>True == 1\<close>, a str or NaN equals no int\<close>
  "dict_key v = (case v of Intg n \<Rightarrow> Some n | Bool b \<Rightarrow> Some (if b then 1 else 0)
     | Str s \<Rightarrow> None | NaN \<Rightarrow> None)"

definition code_map_get :: "int option \<Rightarrow> string \<Rightarrow> string" where
  \<comment> \<open>\<open>code_map.get(key, default)\<close>\<close>
  "code_map_get k d = (case k of None \<Rightarrow> d
     | Some n \<Rightarrow> (case code_map n of Some l \<Rightarrow> l | None \<Rightarrow> d))"

definition py_int :: "cell \<Rightarrow> error + int" where
  \<comment> \<open>\<open>int(code)\<close>\<close>
  "py_int v = (case v of Str s \<Rightarrow> int_of_digits s | Intg n \<Rightarrow> Inr n
     | Bool b \<Rightarrow> Inr (if b then 1 else 0) | NaN \<Rightarrow> Inl ValueError)"

definition get_transaction_reason_text :: "cell \<Rightarrow> error + string" where
  "get_transaction_reason_text code =
     (if str_isdigit (astype_str code)
      then (case py_int code of Inl e \<Rightarrow> Inl e
            | Inr n \<Rightarrow> Inr (code_map_get (Some n) (astype_str code)))
      else Inr (code_map_get (dict_key code) (astype_str code)))"

subsection \<open>Data frames\<close>

text \<open>
  A DataFrame is its ordered column names and its rows, each row holding one cell per
  column. The mapping table is read with \<open>dtype=str, keep_default_na=False\<close>, so its
  cells are strings; an ack file's cells are of type \<^typ>\<open>cell\<close>.
\<close>

record 'a frame =
  columns :: "string list"
  rows :: "'a list list"

definition wf_frame :: "'a frame \<Rightarrow> bool" where
  \<comment> \<open>the RecordSet invariant: one column schema of distinct names, shared by every row\<close>
  "wf_frame df = (distinct (columns df) \<and> list_all (\<lambda>r. length r = length (columns df)) (rows df))"

fun index_of :: "'a \<Rightarrow> 'a list \<Rightarrow> nat" where
  "index_of x [] = 0"
| "index_of x (y # ys) = (if x = y then 0 else Suc (index_of x ys))"

definition get_loc :: "'a frame \<Rightarrow> string \<Rightarrow> nat" where
  \<comment> \<open>\<open>df.columns.get_loc(c)\<close>, called only for a column that exists\<close>
  "get_loc df c = index_of c (columns df)"

definition series :: "'a frame \<Rightarrow> string \<Rightarrow> 'a list" where
  \<comment> \<open>\<open>df[c]\<close> for a column that exists\<close>
  "series df c = map (\<lambda>r. r ! get_loc df c) (rows df)"

definition getitem :: "'a frame \<Rightarrow> string \<Rightarrow> error + 'a list" where
  \<comment> \<open>\<open>df[c]\<close> where the source does not test for the column: KeyError when it is absent\<close>
  "getitem df c = (if c \<in> set (columns df) then Inr (series df c) else Inl (KeyError c))"

definition setitem :: "'a frame \<Rightarrow> string \<Rightarrow> 'a list \<Rightarrow> 'a frame" where
  \<comment> \<open>\<open>df[c] = values\<close>: overwrites the column, or appends it as the last one\<close>
  "setitem df c vs = (if c \<in> set (columns df)
     then df\<lparr>rows := map (\<lambda>(r, v). r[get_loc df c := v]) (zip (rows df) vs)\<rparr>
     else df\<lparr>columns := columns df @ [c], rows := map (\<lambda>(r, v). r @ [v]) (zip (rows df) vs)\<rparr>)"

definition setitem_scalar :: "'a frame \<Rightarrow> string \<Rightarrow> 'a \<Rightarrow> 'a frame" where
  \<comment> \<open>\<open>df[c] = value\<close> with one value for every row\<close>
  "setitem_scalar df c v = (if c \<in> set (columns df)
     then df\<lparr>rows := map (\<lambda>r. r[get_loc df c := v]) (rows df)\<rparr>
     else df\<lparr>columns := columns df @ [c], rows := map (\<lambda>r. r @ [v]) (rows df)\<rparr>)"

definition map_column :: "('a \<Rightarrow> 'a) \<Rightarrow> string \<Rightarrow> 'a frame \<Rightarrow> 'a frame" where
  \<comment> \<open>\<open>df[c] = f(df[c])\<close> element by element, for a column that exists\<close>
  "map_column f c df = df\<lparr>rows := map (\<lambda>r. r[get_loc df c := f (r ! get_loc df c)]) (rows df)\<rparr>"

definition list_insert :: "nat \<Rightarrow> 'a \<Rightarrow> 'a list \<Rightarrow> 'a list" where
  \<comment> \<open>\<open>xs.insert(i, x)\<close>\<close>
  "list_insert i x xs = take i xs @ x # drop i xs"

definition list_pop :: "nat \<Rightarrow> 'a list \<Rightarrow> 'a list" where
  \<comment> \<open>the list left by \<open>xs.pop(i)\<close>\<close>
  "list_pop i xs = take i xs @ drop (Suc i) xs"

definition insert_col :: "'a frame \<Rightarrow> nat \<Rightarrow> string \<Rightarrow> 'a \<Rightarrow> 'a frame" where
  \<comment> \<open>\<open>df.insert(loc, c, value)\<close>, called only for a column that does not exist\<close>
  "insert_col df loc c v = df\<lparr>columns := list_insert loc c (columns df),
     rows := map (list_insert loc v) (rows df)\<rparr>"

definition drop_columns :: "'a frame \<Rightarrow> string list \<Rightarrow> 'a frame" where
  \<comment> \<open>\<open>df.drop(columns=cs)\<close>, called only with columns that exist\<close>
  "drop_columns df cs = df\<lparr>columns := filter (\<lambda>c. c \<notin> set cs) (columns df),
     rows := map (\<lambda>r. map snd (filter (\<lambda>(c, v). c \<notin> set cs) (zip (columns df) r))) (rows df)\<rparr>"

definition select_columns :: "'a frame \<Rightarrow> string list \<Rightarrow> 'a frame" where
  \<comment> \<open>\<open>df[cols]\<close>: the named columns, in the order given\<close>
  "select_columns df cs = df\<lparr>columns := cs,
     rows := map (\<lambda>r. map (\<lambda>c. r ! get_loc df c) cs) (rows df)\<rparr>"

definition loc_set :: "'a frame \<Rightarrow> bool list \<Rightarrow> string \<Rightarrow> 'a list \<Rightarrow> 'a frame" where
  \<comment> \<open>\<open>df.loc[mask, c] = values\<close> for a column that exists: the rows of the mask take
      their own value, by index\<close>
  "loc_set df msk c vs = df\<lparr>rows :=
     map (\<lambda>(r, b, v). if b then r[get_loc df c := v] else r) (zip (rows df) (zip msk vs))\<rparr>"

definition any_true :: "bool list \<Rightarrow> bool" where
  \<comment> \<open>\<open>mask.any()\<close>\<close>
  "any_true msk = list_ex (\<lambda>b. b) msk"

definition mask_sum :: "bool list \<Rightarrow> nat" where
  \<comment> \<open>\<open>mask.sum()\<close>\<close>
  "mask_sum msk = length (filter (\<lambda>b. b) msk)"

primrec unique_from :: "'a list \<Rightarrow> 'a list \<Rightarrow> 'a list" where
  "unique_from seen [] = []"
| "unique_from seen (x # xs) =
     (if x \<in> set seen then unique_from seen xs else x # unique_from (x # seen) xs)"

definition unique :: "'a list \<Rightarrow> 'a list" where
  \<comment> \<open>\<open>Series.unique()\<close>: the distinct values in order of first appearance\<close>
  "unique xs = unique_from [] xs"

definition drop_duplicates :: "'a frame \<Rightarrow> 'a frame" where
  \<comment> \<open>\<open>df.drop_duplicates()\<close>: of rows equal in every column the first is kept\<close>
  "drop_duplicates df = df\<lparr>rows := unique (rows df)\<rparr>"

subsection \<open>Mapping Table Loader\<close>

definition strip_columns :: "string list" where
  "strip_columns = [''Error_Type'', ''Client_Error_Type'', ''Client Action'', ''file_type_2'']"

definition remove_blank_and_duplicate_rows :: "string frame \<Rightarrow> string frame" where
  \<comment> \<open>the first two cleaning steps: remove rows where Error_Type is empty or just
      whitespace, then remove completely duplicate rows\<close>
  "remove_blank_and_duplicate_rows mapping_df =
     (let df1 = mapping_df\<lparr>rows :=
                  filter (\<lambda>r. str_strip (r ! get_loc mapping_df ''Error_Type'') \<noteq> '''')
                    (rows mapping_df)\<rparr>
      in drop_duplicates df1)"

definition strip_column :: "string \<Rightarrow> string frame \<Rightarrow> string frame" where
  \<comment> \<open>one round of the loop over the key columns\<close>
  "strip_column col df = (if col \<in> set (columns df) then map_column str_strip col df else df)"

definition strip_key_columns :: "string frame \<Rightarrow> string frame" where
  \<comment> \<open>the last cleaning step: strip whitespace from the key columns that exist\<close>
  "strip_key_columns mapping_df = fold strip_column strip_columns mapping_df"

definition load_error_mapping_file :: "string frame \<Rightarrow> string frame option" where
  \<comment> \<open>from the frame \<open>pd.read_csv(uploaded_file, dtype=str, keep_default_na=False)\<close> gives;
      None is the source's \<open>return None\<close> after reporting the missing columns\<close>
  "load_error_mapping_file mapping_df =
     (let required_cols = [''Error_Type'', ''Client_Error_Type'', ''Client Action''];
          missing_cols = filter (\<lambda>col. col \<notin> set (columns mapping_df)) required_cols
      in if missing_cols \<noteq> [] then None
         else Some (strip_key_columns (remove_blank_and_duplicate_rows mapping_df)))"

definition strip_row :: "string list \<Rightarrow> string list \<Rightarrow> string list" where
  \<comment> \<open>a row with the cells of the key columns stripped; used to state what the loader returns\<close>
  "strip_row cols r = map (\<lambda>(c, v). if c \<in> set strip_columns then str_strip v else v) (zip cols r)"

subsection \<open>Error Mapping Engine\<close>

abbreviation ERROR_TYPE_COL :: string where "ERROR_TYPE_COL \<equiv> ''Error_Type''"
abbreviation IS_ERROR_COL :: string where "IS_ERROR_COL \<equiv> ''isError''"
abbreviation TRANSACTION_REASON_COL :: string where "TRANSACTION_REASON_COL \<equiv> ''Transaction_Reason''"
abbreviation CLIENT_ACTION_COL :: string where "CLIENT_ACTION_COL \<equiv> ''Client_Action''"

datatype report =
    Skipped "string list"  \<comment> \<open>the warning that names the missing ack columns\<close>
  | NoErrorRows
  | Coverage nat nat "string list" bool
      \<comment> \<open>mappings applied, total error rows, the unmapped error types shown (ten at most),
          and whether there are more\<close>
  | Failed error  \<comment> \<open>the message of the \<open>except\<close> branch\<close>

definition dict_zip :: "'k list \<Rightarrow> 'v list \<Rightarrow> ('k \<rightharpoonup> 'v)" where
  \<comment> \<open>\<open>dict(zip(ks, vs))\<close>: for a key that occurs twice the last value stays\<close>
  "dict_zip ks vs = map_of (rev (zip ks vs))"

definition series_map :: "(string \<rightharpoonup> string) \<Rightarrow> cell \<Rightarrow> cell" where
  \<comment> \<open>one element of \<open>Series.map(d)\<close>: NaN for a value that is not a key\<close>
  "series_map d v = (case v of Str s \<Rightarrow> (case d s of Some x \<Rightarrow> Str x | None \<Rightarrow> NaN)
     | _ \<Rightarrow> NaN)"

definition fillna :: "cell \<Rightarrow> cell" where
  \<comment> \<open>one element of \<open>.fillna("")\<close>\<close>
  "fillna v = (if v = NaN then Str '''' else v)"

definition isin :: "(string \<rightharpoonup> string) \<Rightarrow> cell \<Rightarrow> bool" where
  \<comment> \<open>one element of \<open>Series.isin(d.keys())\<close>; the keys are strings\<close>
  "isin d v = (case v of Str s \<Rightarrow> d s \<noteq> None | _ \<Rightarrow> False)"

primrec apply_series :: "('a \<Rightarrow> error + 'b) \<Rightarrow> 'a list \<Rightarrow> error + 'b list" where
  \<comment> \<open>\<open>Series.apply(f)\<close>: the first exception of \<open>f\<close> ends it\<close>
  "apply_series f [] = Inr []"
| "apply_series f (x # xs) = (case f x of Inl e \<Rightarrow> Inl e
     | Inr y \<Rightarrow> (case apply_series f xs of Inl e \<Rightarrow> Inl e | Inr ys \<Rightarrow> Inr (y # ys)))"

primrec join_items :: "cell list \<Rightarrow> error + string list" where
  \<comment> \<open>the items \<open>', '.join(xs)\<close> joins: TypeError on an item that is not a str\<close>
  "join_items [] = Inr []"
| "join_items (x # xs) = (case x of
       Str s \<Rightarrow> (case join_items xs of Inl e \<Rightarrow> Inl e | Inr ys \<Rightarrow> Inr (s # ys))
     | _ \<Rightarrow> Inl TypeError)"

definition error_rows_of :: "cell frame \<Rightarrow> bool list" where
  \<comment> \<open>\<open>result_df[IS_ERROR_COL].astype(str).str.upper() == "TRUE"\<close>\<close>
  "error_rows_of df = map (\<lambda>v. str_upper (astype_str v) = ''TRUE'') (series df IS_ERROR_COL)"

definition add_reason_text :: "cell frame \<Rightarrow> error + cell frame" where
  \<comment> \<open>Convert Transaction_Reason to text format for matching\<close>
  "add_reason_text result_df =
     (if TRANSACTION_REASON_COL \<in> set (columns result_df)
      then (case apply_series get_transaction_reason_text (series result_df TRANSACTION_REASON_COL) of
              Inl e \<Rightarrow> Inl e
            | Inr txt \<Rightarrow> Inr (setitem result_df ''Transaction_Reason_Text'' (map Str txt)))
      else Inr result_df)"

definition mapping_composite_keys :: "string list \<Rightarrow> string list \<Rightarrow> string list" where
  \<comment> \<open>\<open>mapping_df_clean["Error_Type"] + "|" + mapping_df_clean["file_type_2"]\<close>\<close>
  "mapping_composite_keys ets fts = map (\<lambda>(e, f). e @ ''|'' @ f) (zip ets fts)"

definition ack_composite_keys :: "cell frame \<Rightarrow> string list" where
  \<comment> \<open>\<open>result_df[ERROR_TYPE_COL].astype(str) + "|" + result_df["Transaction_Reason_Text"].astype(str)\<close>\<close>
  "ack_composite_keys df = map (\<lambda>(e, t). astype_str e @ ''|'' @ astype_str t)
     (zip (series df ERROR_TYPE_COL) (series df ''Transaction_Reason_Text''))"

definition update_matched ::
  "cell frame \<Rightarrow> bool list \<Rightarrow> string \<Rightarrow> (string \<rightharpoonup> string) \<Rightarrow> (string \<rightharpoonup> string) \<Rightarrow> cell frame" where
  \<comment> \<open>the two updates both strategies make on the matched rows, with \<open>key_col\<close> the
      column the source maps: \<open>"composite_key"\<close> in strategy 1, \<open>ERROR_TYPE_COL\<close> in
      strategy 2.
      \<open>result_df.loc[m, ERROR_TYPE_COL] = result_df.loc[m, key_col].map(error_mapping)\<close>, then, if
      Client_Action exists,
      \<open>result_df.loc[m, CLIENT_ACTION_COL] = result_df.loc[m, key_col].map(action_mapping).fillna("")\<close>,
      which reads \<open>key_col\<close> after the first update.\<close>
  "update_matched result_df matched key_col error_mapping action_mapping =
     (let df1 = loc_set result_df matched ERROR_TYPE_COL
                  (map (series_map error_mapping) (series result_df key_col))
      in if CLIENT_ACTION_COL \<in> set (columns df1)
         then loc_set df1 matched CLIENT_ACTION_COL
                (map (\<lambda>v. fillna (series_map action_mapping v)) (series df1 key_col))
         else df1)"

definition strategy1 ::
  "cell frame \<Rightarrow> string frame \<Rightarrow> bool list \<Rightarrow> error + (cell frame \<times> bool list option \<times> nat)" where
  \<comment> \<open>Strategy 1: match on Error_Type and file_type_2. Returns the frame, \<open>error_mask\<close>
      (None when the block is not entered, so that the name is not among the locals) and
      the mappings applied.\<close>
  "strategy1 result_df mapping_df error_rows =
     (if ''Transaction_Reason_Text'' \<in> set (columns result_df) \<and> ''file_type_2'' \<in> set (columns mapping_df)
      then
        (case getitem mapping_df ''Error_Type'' of Inl e \<Rightarrow> Inl e | Inr m_error_type \<Rightarrow>
        (let m_keys = mapping_composite_keys m_error_type (series mapping_df ''file_type_2'');
             df1 = setitem result_df ''composite_key'' (map Str (ack_composite_keys result_df))
         in
        (case getitem mapping_df ''Client_Error_Type'' of Inl e \<Rightarrow> Inl e | Inr m_client_error_type \<Rightarrow>
        (case getitem mapping_df ''Client Action'' of Inl e \<Rightarrow> Inl e | Inr m_client_action \<Rightarrow>
        (let composite_error_mapping = dict_zip m_keys m_client_error_type;
             composite_action_mapping = dict_zip m_keys m_client_action;
             error_mask = map (\<lambda>(e, k). e \<and> isin composite_error_mapping k)
                            (zip error_rows (series df1 ''composite_key''))
         in
         if any_true error_mask
         then
           Inr (update_matched df1 error_mask ''composite_key''
                  composite_error_mapping composite_action_mapping,
                Some error_mask, mask_sum error_mask)
         else Inr (df1, Some error_mask, 0))))))
      else Inr (result_df, None, 0))"

definition remaining_errors_of :: "bool list \<Rightarrow> bool list option \<Rightarrow> bool list" where
  \<comment> \<open>\<open>error_rows & ~result_df.index.isin(result_df[error_mask].index if "error_mask" in locals() else [])\<close>\<close>
  "remaining_errors_of error_rows error_mask = (case error_mask of
       Some em \<Rightarrow> map (\<lambda>(e, m). e \<and> \<not> m) (zip error_rows em)
     | None \<Rightarrow> error_rows)"

definition strategy2 ::
  "cell frame \<Rightarrow> string frame \<Rightarrow> bool list \<Rightarrow> bool list option
     \<Rightarrow> error + (cell frame \<times> bool list option \<times> nat)" where
  \<comment> \<open>Strategy 2: for the remaining error rows, match on Error_Type only. Returns the
      frame, \<open>simple_match_mask\<close> (None when it is never assigned) and the mappings applied.\<close>
  "strategy2 result_df mapping_df error_rows error_mask =
     (let remaining_errors = remaining_errors_of error_rows error_mask
      in
      if any_true remaining_errors
      then
        (case getitem mapping_df ''Error_Type'' of Inl e \<Rightarrow> Inl e | Inr m_error_type \<Rightarrow>
        (case getitem mapping_df ''Client_Error_Type'' of Inl e \<Rightarrow> Inl e | Inr m_client_error_type \<Rightarrow>
        (case getitem mapping_df ''Client Action'' of Inl e \<Rightarrow> Inl e | Inr m_client_action \<Rightarrow>
        (let simple_error_mapping = dict_zip m_error_type m_client_error_type;
             simple_action_mapping = dict_zip m_error_type m_client_action;
             simple_match_mask = map (\<lambda>(r, v). r \<and> isin simple_error_mapping v)
                                   (zip remaining_errors (series result_df ERROR_TYPE_COL))
         in
         if any_true simple_match_mask
         then
           Inr (update_matched result_df simple_match_mask ERROR_TYPE_COL
                  simple_error_mapping simple_action_mapping,
                Some simple_match_mask, mask_sum simple_match_mask)
         else Inr (result_df, Some simple_match_mask, 0)))))
      else Inr (result_df, None, 0))"

definition mask_or_false :: "nat \<Rightarrow> bool list option \<Rightarrow> bool list" where
  \<comment> \<open>the mask if it is among the locals, else \<open>pd.Series([False] * len(result_df))\<close>\<close>
  "mask_or_false n m = (case m of Some b \<Rightarrow> b | None \<Rightarrow> replicate n False)"

definition unmatched_errors_of ::
  "cell frame \<Rightarrow> bool list \<Rightarrow> bool list option \<Rightarrow> bool list option \<Rightarrow> cell list" where
  \<comment> \<open>Identify unmatched errors for reporting\<close>
  "unmatched_errors_of result_df error_rows error_mask simple_match_mask =
     (let n = length (rows result_df);
          all_matched_mask = map (\<lambda>(a, b). a \<or> b)
                               (zip (mask_or_false n error_mask) (mask_or_false n simple_match_mask));
          unmatched_mask = map (\<lambda>(e, a). e \<and> \<not> a) (zip error_rows all_matched_mask)
      in if any_true unmatched_mask
         then unique (map snd (filter fst (zip unmatched_mask (series result_df ERROR_TYPE_COL))))
         else [])"

definition finish_mapping ::
  "cell frame \<Rightarrow> bool list \<Rightarrow> bool list option \<Rightarrow> bool list option \<Rightarrow> nat
     \<Rightarrow> error + (cell frame \<times> report)" where
  \<comment> \<open>Identify the unmatched errors, clean up the temporary columns, report. The join of
      the warning is evaluated only for a non-empty list; on the empty list it cannot fail.\<close>
  "finish_mapping result_df error_rows error_mask simple_match_mask mappings_applied =
     (let unmatched_errors = unmatched_errors_of result_df error_rows error_mask simple_match_mask;
          df1 = drop_columns result_df [''composite_key''];
          df2 = drop_columns df1 [''Transaction_Reason_Text''];
          total_errors = mask_sum error_rows
      in
      (case join_items (take 10 unmatched_errors) of Inl e \<Rightarrow> Inl e
       | Inr shown \<Rightarrow>
           Inr (df2, Coverage mappings_applied total_errors shown (10 < length unmatched_errors))))"

definition apply_error_mapping_try :: "cell frame \<Rightarrow> string frame \<Rightarrow> error + (cell frame \<times> report)" where
  \<comment> \<open>the body of the \<open>try\<close>: \<open>Inl\<close> is an exception raised in it. \<open>result_df\<close> is a copy,
      so \<open>ack_df\<close> is never written to.\<close>
  "apply_error_mapping_try ack_df mapping_df =
     (let result_df = ack_df;
          missing_ack_cols = filter (\<lambda>col. col \<notin> set (columns result_df)) [ERROR_TYPE_COL, IS_ERROR_COL]
      in
      if missing_ack_cols \<noteq> [] then Inr (result_df, Skipped missing_ack_cols)
      else
        (let error_rows = error_rows_of result_df in
         if \<not> any_true error_rows then Inr (result_df, NoErrorRows)
         else
           (case add_reason_text result_df of Inl e \<Rightarrow> Inl e | Inr df1 \<Rightarrow>
           (case strategy1 df1 mapping_df error_rows of Inl e \<Rightarrow> Inl e
            | Inr (df2, error_mask, applied1) \<Rightarrow>
           (case strategy2 df2 mapping_df error_rows error_mask of Inl e \<Rightarrow> Inl e
            | Inr (df3, simple_match_mask, applied2) \<Rightarrow>
                finish_mapping df3 error_rows error_mask simple_match_mask (applied1 + applied2))))))"

definition apply_error_mapping :: "cell frame \<Rightarrow> string frame \<Rightarrow> cell frame \<times> report" where
  \<comment> \<open>\<open>except Exception\<close>: report the failure and return the original \<open>ack_df\<close>\<close>
  "apply_error_mapping ack_df mapping_df = (case apply_error_mapping_try ack_df mapping_df of
       Inl e \<Rightarrow> (ack_df, Failed e)
     | Inr res \<Rightarrow> res)"

subsection \<open>Record Transform Pipeline\<close>

abbreviation SOURCE_FILENAME_COL :: string where "SOURCE_FILENAME_COL \<equiv> ''Source_Filename''"
abbreviation ORIGINAL_CONTRACT_NUMBER_COL :: string where
  "ORIGINAL_CONTRACT_NUMBER_COL \<equiv> ''Original_Contract_Number''"
abbreviation INCOMING_CLIENT_FILENAME_COL :: string where
  "INCOMING_CLIENT_FILENAME_COL \<equiv> ''incoming_client_filename''"
abbreviation ERROR_MESSAGE_COL :: string where "ERROR_MESSAGE_COL \<equiv> ''Error_Message''"
abbreviation AGENT_NUMBER_COL :: string where "AGENT_NUMBER_COL \<equiv> ''Agent_Number''"
abbreviation CSV_EXTENSION :: string where "CSV_EXTENSION \<equiv> ''.csv''"

definition columns_to_drop_general :: "string list" where
  "columns_to_drop_general = [''Transfer_Flag'', ''job_run_registration'', ''incoming_record_guid'',
     ''is_ipay'', ''Error_Job_Run'', ''Error_Source'', ''Error_Update_Datetime'',
     ''Genesis_Job_Run'', ''Standard_Job_Run'']"

definition COSIGN_PII_COLUMNS :: "string list" where
  "COSIGN_PII_COLUMNS = [''Property_Address'', ''Property_City'', ''Property_State_Code'', ''Property_Zip'']"

definition pii_columns_customer :: "string list" where
  "pii_columns_customer = [''Customer_First_Name'', ''Customer_Address_1'', ''Customer_City'',
     ''Customer_State'', ''Customer_Zip_Code'', ''Customer_Phone'', ''Customer_Email'']"

definition drop_general :: "cell frame \<Rightarrow> cell frame" where
  \<comment> \<open>Initial column dropping: those of the list that exist\<close>
  "drop_general df =
     (let existing_cols_to_drop_general = filter (\<lambda>col. col \<in> set (columns df)) columns_to_drop_general
      in if existing_cols_to_drop_general \<noteq> [] then drop_columns df existing_cols_to_drop_general else df)"

definition desired_source_filename :: "string \<Rightarrow> string" where
  "desired_source_filename global_source_filename =
     (if global_source_filename \<noteq> '''' then global_source_filename @ CSV_EXTENSION else '''')"

definition handle_source_filename :: "string \<Rightarrow> cell frame \<Rightarrow> cell frame" where
  \<comment> \<open>Handle Source_Filename column: inserts, updates, or blanks out the source filename\<close>
  "handle_source_filename global_source_filename df =
     (let desired = Str (desired_source_filename global_source_filename)
      in
      if SOURCE_FILENAME_COL \<notin> set (columns df)
      then (if ORIGINAL_CONTRACT_NUMBER_COL \<in> set (columns df)
            then insert_col df (get_loc df ORIGINAL_CONTRACT_NUMBER_COL + 1) SOURCE_FILENAME_COL desired
            else setitem_scalar df SOURCE_FILENAME_COL desired)
      else setitem_scalar df SOURCE_FILENAME_COL desired)"

definition clear_cosign_pii :: "bool list \<Rightarrow> string \<Rightarrow> cell frame \<Rightarrow> cell frame" where
  \<comment> \<open>one round of the loop over \<open>COSIGN_PII_COLUMNS\<close>: the column is cast to str, then
      blanked on the COSIGN rows\<close>
  "clear_cosign_pii cosign_mask col df =
     (if col \<in> set (columns df)
      then (let df1 = map_column (\<lambda>v. Str (astype_str v)) col df
            in loc_set df1 cosign_mask col (replicate (length (rows df1)) (Str '''')))
      else df)"

definition cosign_processing :: "cell frame \<Rightarrow> cell frame" where
  \<comment> \<open>COSIGN specific processing: property PII removal and the column reordering\<close>
  "cosign_processing df =
     (if AGENT_NUMBER_COL \<in> set (columns df)
         \<and> ''COSIGN'' \<in> set (map (\<lambda>v. str_upper (astype_str v)) (series df AGENT_NUMBER_COL))
      then
        (let cosign_mask = map (\<lambda>v. str_upper (astype_str v) = ''COSIGN'') (series df AGENT_NUMBER_COL);
             df1 = fold (clear_cosign_pii cosign_mask) COSIGN_PII_COLUMNS df
         in
         if SOURCE_FILENAME_COL \<in> set (columns df1) \<and> INCOMING_CLIENT_FILENAME_COL \<in> set (columns df1)
         then
           (let source_filename_idx = get_loc df1 SOURCE_FILENAME_COL;
                incoming_client_filename_idx = get_loc df1 INCOMING_CLIENT_FILENAME_COL
            in
            if source_filename_idx > incoming_client_filename_idx
            then select_columns df1
                   (list_insert incoming_client_filename_idx (columns df1 ! source_filename_idx)
                      (list_pop source_filename_idx (columns df1)))
            else df1)
         else df1)
      else df)"

definition handle_client_action :: "cell frame \<Rightarrow> cell frame" where
  \<comment> \<open>Handle Client_Action column: ensures this column exists\<close>
  "handle_client_action df =
     (if CLIENT_ACTION_COL \<notin> set (columns df)
      then (if ERROR_MESSAGE_COL \<in> set (columns df)
            then insert_col df (get_loc df ERROR_MESSAGE_COL + 1) CLIENT_ACTION_COL (Str '''')
            else setitem_scalar df CLIENT_ACTION_COL (Str ''''))
      else df)"

definition remove_customer_pii :: "cell frame \<Rightarrow> cell frame" where
  \<comment> \<open>General PII removal: every customer column that exists is set to the empty string\<close>
  "remove_customer_pii df =
     (let existing_pii_columns_customer = filter (\<lambda>col. col \<in> set (columns df)) pii_columns_customer
      in fold (\<lambda>col d. setitem_scalar d col (Str '''')) existing_pii_columns_customer df)"

fun re_sub_nan :: "string \<Rightarrow> string" where
  \<comment> \<open>\<open>re.sub("nan", "", s)\<close>, which \<open>replace("nan", "", regex=True)\<close> applies to a str
      cell: every match from left to right is cut out, and what is left is not searched again\<close>
  "re_sub_nan (a # b # c # s) =
     (if [a, b, c] = ''nan'' then re_sub_nan s else a # re_sub_nan (b # c # s))"
| "re_sub_nan s = s"

definition normalize_output :: "cell frame \<Rightarrow> cell frame" where
  \<comment> \<open>cast all columns to string, then \<open>df.replace("nan", "", regex=True)\<close>\<close>
  "normalize_output df = df\<lparr>rows := map (map (\<lambda>v. Str (re_sub_nan (astype_str v)))) (rows df)\<rparr>"

definition process_csv_file ::
  "cell frame \<Rightarrow> string \<Rightarrow> bool \<Rightarrow> string frame option \<Rightarrow> error + cell frame" where
  \<comment> \<open>from the frame \<open>pd.read_csv(uploaded_file)\<close> gives; the checks of the file content and
      the parser's own errors come before it. \<open>df.empty\<close> holds of a frame without rows or
      without columns, \<open>df.columns.any()\<close> of one with a non-empty column name.\<close>
  "process_csv_file df global_source_filename remove_pii error_mapping_df =
     (if rows df = [] \<or> columns df = [] then Inl ValueError
      else if \<not> list_ex (\<lambda>c. c \<noteq> '''') (columns df) then Inl ValueError
      else
        (let df1 = drop_general df;
             df2 = handle_source_filename global_source_filename df1;
             df3 = cosign_processing df2;
             df4 = handle_client_action df3;
             df5 = (case error_mapping_df of None \<Rightarrow> df4
                    | Some mapping_df \<Rightarrow> fst (apply_error_mapping df4 mapping_df));
             df6 = (if remove_pii then remove_customer_pii df5 else df5)
         in Inr (normalize_output df6)))"

subsection \<open>What a step leaves alone\<close>

definition frame_step :: "(string \<Rightarrow> bool) \<Rightarrow> (string \<Rightarrow> bool) \<Rightarrow> 'a frame \<Rightarrow> 'a frame \<Rightarrow> bool" where
  \<comment> \<open>used to state the properties: from \<open>df\<close> to \<open>df'\<close> the rows stay in number, the columns
      that satisfy \<open>keeps_place\<close> stay in their relative order, and the columns that satisfy
      \<open>keeps_values\<close> stay with their values, row by row\<close>
  "frame_step keeps_place keeps_values df df' =
     (wf_frame df' \<and> length (rows df') = length (rows df)
      \<and> filter keeps_place (columns df') = filter keeps_place (columns df)
      \<and> (\<forall>c \<in> set (columns df). keeps_values c \<longrightarrow> c \<in> set (columns df') \<and> series df' c = series df c))"

section \<open>Lemmas\<close>

subsection \<open>Lists, indices and frames\<close>

lemma index_of_less: "x \<in> set xs \<Longrightarrow> index_of x xs < length xs"
  by (induction xs) auto

lemma index_of_notin: "x \<notin> set xs \<Longrightarrow> index_of x xs = length xs"
  by (induction xs) auto

lemma nth_index_of: "x \<in> set xs \<Longrightarrow> xs ! index_of x xs = x"
  by (induction xs) auto

lemma index_of_nth: "distinct xs \<Longrightarrow> i < length xs \<Longrightarrow> index_of (xs ! i) xs = i"
proof (induction xs arbitrary: i)
  case Nil
  then show ?case by simp
next
  case (Cons y ys)
  then show ?case by (cases i) auto
qed

lemma index_of_append: "index_of x (xs @ ys) = (if x \<in> set xs then index_of x xs else length xs + index_of x ys)"
  by (induction xs) auto

lemma index_of_inject: "x \<in> set xs \<Longrightarrow> index_of x xs = index_of y xs \<Longrightarrow> x = y"
  by (induction xs) (auto split: if_splits)

lemma index_of_neq: "x \<in> set xs \<Longrightarrow> x \<noteq> y \<Longrightarrow> index_of x xs \<noteq> index_of y xs"
  using index_of_inject by metis

lemma index_of_neq': "x \<in> set xs \<Longrightarrow> y \<noteq> x \<Longrightarrow> index_of y xs \<noteq> index_of x xs"
  using index_of_inject by metis

lemma wf_frame_row: "wf_frame df \<Longrightarrow> r \<in> set (rows df) \<Longrightarrow> length r = length (columns df)"
  by (simp add: wf_frame_def list_all_iff)

lemma wf_frame_nth: "wf_frame df \<Longrightarrow> i < length (rows df) \<Longrightarrow> length (rows df ! i) = length (columns df)"
  by (simp add: wf_frame_row)

lemma wf_frame_distinct: "wf_frame df \<Longrightarrow> distinct (columns df)"
  by (simp add: wf_frame_def)

lemma wf_frameI: "distinct (columns df) \<Longrightarrow> (\<And>i. i < length (rows df) \<Longrightarrow> length (rows df ! i) = length (columns df)) \<Longrightarrow> wf_frame df"
  by (auto simp: wf_frame_def list_all_iff in_set_conv_nth)

lemma length_series [simp]: "length (series df c) = length (rows df)"
  by (simp add: series_def)

lemma series_nth: "i < length (rows df) \<Longrightarrow> series df c ! i = rows df ! i ! index_of c (columns df)"
  by (simp add: series_def get_loc_def)

lemma columns_setitem: "columns (setitem df c vs) = (if c \<in> set (columns df) then columns df else columns df @ [c])"
  by (simp add: setitem_def)

lemma length_rows_setitem: "length vs = length (rows df) \<Longrightarrow> length (rows (setitem df c vs)) = length (rows df)"
  by (simp add: setitem_def)

lemma rows_setitem_nth:
  "length vs = length (rows df) \<Longrightarrow> i < length (rows df) \<Longrightarrow>
   rows (setitem df c vs) ! i = (if c \<in> set (columns df) then (rows df ! i)[index_of c (columns df) := vs ! i]
      else rows df ! i @ [vs ! i])"
  by (simp add: setitem_def get_loc_def)

lemma wf_setitem: "wf_frame df \<Longrightarrow> length vs = length (rows df) \<Longrightarrow> wf_frame (setitem df c vs)"
  by (rule wf_frameI) (auto simp: columns_setitem length_rows_setitem rows_setitem_nth wf_frame_distinct wf_frame_nth)

lemma series_setitem:
  assumes "wf_frame df" "length vs = length (rows df)" "c' \<in> set (columns df) \<or> c' = c"
  shows "series (setitem df c vs) c' = (if c' = c then vs else series df c')"
proof (rule nth_equalityI)
  show "length (series (setitem df c vs) c') = length (if c' = c then vs else series df c')"
    using assms by (simp add: length_rows_setitem)
next
  fix i assume "i < length (series (setitem df c vs) c')"
  then have i: "i < length (rows df)" using assms by (simp add: length_rows_setitem)
  have len: "length (rows df ! i) = length (columns df)" using assms i by (simp add: wf_frame_nth)
  show "series (setitem df c vs) c' ! i = (if c' = c then vs else series df c') ! i"
    using assms i len
    by (auto simp: series_nth length_rows_setitem rows_setitem_nth columns_setitem index_of_less
        index_of_append index_of_notin nth_append index_of_neq)
qed

lemma columns_loc_set [simp]: "columns (loc_set df msk c vs) = columns df"
  by (simp add: loc_set_def)

lemma length_rows_loc_set: "length msk = length (rows df) \<Longrightarrow> length vs = length (rows df) \<Longrightarrow>
  length (rows (loc_set df msk c vs)) = length (rows df)"
  by (simp add: loc_set_def)

lemma rows_loc_set_nth:
  "length msk = length (rows df) \<Longrightarrow> length vs = length (rows df) \<Longrightarrow> i < length (rows df) \<Longrightarrow>
   rows (loc_set df msk c vs) ! i = (if msk ! i then (rows df ! i)[index_of c (columns df) := vs ! i] else rows df ! i)"
  by (simp add: loc_set_def get_loc_def)

lemma wf_loc_set: "wf_frame df \<Longrightarrow> length msk = length (rows df) \<Longrightarrow> length vs = length (rows df) \<Longrightarrow>
  wf_frame (loc_set df msk c vs)"
  by (rule wf_frameI) (auto simp: length_rows_loc_set rows_loc_set_nth wf_frame_distinct wf_frame_nth)

lemma series_loc_set_nth:
  assumes "wf_frame df" "length msk = length (rows df)" "length vs = length (rows df)"
    "c \<in> set (columns df)" "c' \<in> set (columns df)" "i < length (rows df)"
  shows "series (loc_set df msk c vs) c' ! i = (if c' = c \<and> msk ! i then vs ! i else series df c' ! i)"
proof -
  have len: "length (rows df ! i) = length (columns df)" using assms by (simp add: wf_frame_nth)
  show ?thesis using assms len
    by (auto simp: series_nth length_rows_loc_set rows_loc_set_nth index_of_less index_of_neq)
qed

lemma columns_drop_columns: "columns (drop_columns df cs) = filter (\<lambda>c. c \<notin> set cs) (columns df)"
  by (simp add: drop_columns_def)

lemma length_rows_drop_columns [simp]: "length (rows (drop_columns df cs)) = length (rows df)"
  by (simp add: drop_columns_def)

lemma filter_zip_fst: "length xs = length ys \<Longrightarrow>
  map fst (filter (\<lambda>(c, v). P c) (zip xs ys)) = filter P xs"
  by (induction xs ys rule: list_induct2) auto

lemma nth_filter_zip:
  "length xs = length ys \<Longrightarrow> distinct xs \<Longrightarrow> x \<in> set xs \<Longrightarrow> P x \<Longrightarrow>
   map snd (filter (\<lambda>(c, v). P c) (zip xs ys)) ! index_of x (filter P xs) = ys ! index_of x xs"
  by (induction xs ys rule: list_induct2) auto

lemma wf_drop_columns: "wf_frame df \<Longrightarrow> wf_frame (drop_columns df cs)"
proof (rule wf_frameI)
  assume wf: "wf_frame df"
  then show "distinct (columns (drop_columns df cs))" by (simp add: columns_drop_columns wf_frame_distinct)
  fix i assume i: "i < length (rows (drop_columns df cs))"
  then have len: "length (columns df) = length (rows df ! i)" using wf by (simp add: wf_frame_nth)
  have "length (map snd (filter (\<lambda>(c, v). c \<notin> set cs) (zip (columns df) (rows df ! i))))
      = length (map fst (filter (\<lambda>(c, v). c \<notin> set cs) (zip (columns df) (rows df ! i))))" by simp
  also have "\<dots> = length (filter (\<lambda>c. c \<notin> set cs) (columns df))"
    using filter_zip_fst[OF len] by metis
  finally show "length (rows (drop_columns df cs) ! i) = length (columns (drop_columns df cs))"
    using i by (simp add: drop_columns_def)
qed

lemma series_drop_columns:
  assumes "wf_frame df" "c \<in> set (columns df)" "c \<notin> set cs"
  shows "series (drop_columns df cs) c = series df c"
proof (rule nth_equalityI)
  show "length (series (drop_columns df cs) c) = length (series df c)" by simp
next
  fix i assume "i < length (series (drop_columns df cs) c)"
  then have i: "i < length (rows df)" by simp
  then have len: "length (columns df) = length (rows df ! i)" using assms by (simp add: wf_frame_nth)
  show "series (drop_columns df cs) c ! i = series df c ! i"
    using i assms nth_filter_zip[OF len wf_frame_distinct[OF assms(1)] assms(2), of "\<lambda>c. c \<notin> set cs"]
    by (simp add: series_nth columns_drop_columns) (simp add: drop_columns_def)
qed

lemma columns_setitem_scalar:
  "columns (setitem_scalar df c v) = (if c \<in> set (columns df) then columns df else columns df @ [c])"
  by (simp add: setitem_scalar_def)

lemma length_rows_setitem_scalar [simp]: "length (rows (setitem_scalar df c v)) = length (rows df)"
  by (simp add: setitem_scalar_def)

lemma rows_setitem_scalar_nth:
  "i < length (rows df) \<Longrightarrow>
   rows (setitem_scalar df c v) ! i = (if c \<in> set (columns df) then (rows df ! i)[index_of c (columns df) := v]
      else rows df ! i @ [v])"
  by (simp add: setitem_scalar_def get_loc_def)

lemma wf_setitem_scalar: "wf_frame df \<Longrightarrow> wf_frame (setitem_scalar df c v)"
  by (rule wf_frameI) (auto simp: columns_setitem_scalar rows_setitem_scalar_nth wf_frame_distinct wf_frame_nth)

lemma series_setitem_scalar:
  assumes "wf_frame df" "c' \<in> set (columns df) \<or> c' = c"
  shows "series (setitem_scalar df c v) c' = (if c' = c then replicate (length (rows df)) v else series df c')"
proof (rule nth_equalityI)
  show "length (series (setitem_scalar df c v) c') = length (if c' = c then replicate (length (rows df)) v else series df c')"
    by simp
next
  fix i assume "i < length (series (setitem_scalar df c v) c')"
  then have i: "i < length (rows df)" by simp
  have len: "length (rows df ! i) = length (columns df)" using assms i by (simp add: wf_frame_nth)
  show "series (setitem_scalar df c v) c' ! i = (if c' = c then replicate (length (rows df)) v else series df c') ! i"
    using assms i len
    by (auto simp: series_nth rows_setitem_scalar_nth columns_setitem_scalar index_of_less
        index_of_append index_of_notin nth_append index_of_neq)
qed

lemma columns_insert_col: "columns (insert_col df loc c v) = take loc (columns df) @ c # drop loc (columns df)"
  by (simp add: insert_col_def list_insert_def)

lemma length_rows_insert_col [simp]: "length (rows (insert_col df loc c v)) = length (rows df)"
  by (simp add: insert_col_def)

lemma rows_insert_col_nth:
  "i < length (rows df) \<Longrightarrow> rows (insert_col df loc c v) ! i = take loc (rows df ! i) @ v # drop loc (rows df ! i)"
  by (simp add: insert_col_def list_insert_def)

lemma distinct_insert:
  assumes "distinct xs" "c \<notin> set xs"
  shows "distinct (take n xs @ c # drop n xs)"
proof -
  have "distinct (take n xs) \<and> distinct (drop n xs) \<and> set (take n xs) \<inter> set (drop n xs) = {}"
    using distinct_append[of "take n xs" "drop n xs"] assms by simp
  then show ?thesis using assms by (auto dest: in_set_takeD in_set_dropD)
qed

lemma wf_insert_col:
  "wf_frame df \<Longrightarrow> c \<notin> set (columns df) \<Longrightarrow> wf_frame (insert_col df loc c v)"
proof (rule wf_frameI)
  assume a: "wf_frame df" "c \<notin> set (columns df)"
  then show "distinct (columns (insert_col df loc c v))"
    using distinct_insert[OF wf_frame_distinct[OF a(1)] a(2), of loc] by (simp only: columns_insert_col)
  fix i assume "i < length (rows (insert_col df loc c v))"
  then show "length (rows (insert_col df loc c v) ! i) = length (columns (insert_col df loc c v))"
    using a by (simp add: rows_insert_col_nth columns_insert_col wf_frame_nth)
qed

lemma filter_insert_skip: "\<not> P c \<Longrightarrow> filter P (take n xs @ c # drop n xs) = filter P xs"
proof -
  assume "\<not> P c"
  then have "filter P (take n xs @ c # drop n xs) = filter P (take n xs) @ filter P (drop n xs)" by simp
  also have "\<dots> = filter P (take n xs @ drop n xs)" by (simp only: filter_append)
  also have "\<dots> = filter P xs" by (simp only: append_take_drop_id)
  finally show ?thesis .
qed

lemma index_of_insert_new:
  "c \<notin> set xs \<Longrightarrow> loc \<le> length xs \<Longrightarrow> index_of c (take loc xs @ c # drop loc xs) = loc"
  by (auto simp: index_of_append index_of_notin dest: in_set_takeD)

lemma index_of_take: "x \<in> set xs \<Longrightarrow> index_of x xs < n \<Longrightarrow> x \<in> set (take n xs) \<and> index_of x (take n xs) = index_of x xs"
proof (induction xs arbitrary: n)
  case Nil
  then show ?case by simp
next
  case (Cons y ys)
  then show ?case by (cases n) auto
qed

lemma index_of_drop: "distinct xs \<Longrightarrow> x \<in> set xs \<Longrightarrow> n \<le> index_of x xs \<Longrightarrow>
  x \<notin> set (take n xs) \<and> x \<in> set (drop n xs) \<and> index_of x (drop n xs) = index_of x xs - n"
proof (induction xs arbitrary: n)
  case Nil
  then show ?case by simp
next
  case (Cons y ys)
  then show ?case by (cases n) (auto split: if_splits)
qed

lemma index_of_insert_old:
  assumes "distinct xs" "x \<in> set xs" "c \<noteq> x"
  shows "index_of x (take loc xs @ c # drop loc xs) = (if index_of x xs < loc then index_of x xs else Suc (index_of x xs))"
proof (cases "index_of x xs < loc")
  case True
  then show ?thesis using assms index_of_take[of x xs loc] by (simp add: index_of_append)
next
  case False
  then have le: "loc \<le> index_of x xs" by simp
  have "loc \<le> length xs" using le index_of_less[OF assms(2)] by simp
  then show ?thesis using False assms index_of_drop[OF assms(1,2) le] by (simp add: index_of_append)
qed

lemma series_insert_col:
  assumes "wf_frame df" "c \<notin> set (columns df)" "loc \<le> length (columns df)" "c' \<in> set (columns df) \<or> c' = c"
  shows "series (insert_col df loc c v) c' = (if c' = c then replicate (length (rows df)) v else series df c')"
proof (rule nth_equalityI)
  show "length (series (insert_col df loc c v) c') = length (if c' = c then replicate (length (rows df)) v else series df c')"
    by simp
next
  fix i assume "i < length (series (insert_col df loc c v) c')"
  then have i: "i < length (rows df)" by simp
  have len: "length (rows df ! i) = length (columns df)" using assms i by (simp add: wf_frame_nth)
  show "series (insert_col df loc c v) c' ! i = (if c' = c then replicate (length (rows df)) v else series df c') ! i"
  proof (cases "c' = c")
    case True
    then show ?thesis using assms i len
      by (simp add: series_nth rows_insert_col_nth columns_insert_col index_of_insert_new nth_append)
  next
    case False
    then have in': "c' \<in> set (columns df)" using assms by simp
    have lt: "index_of c' (columns df) < length (columns df)" using in' by (rule index_of_less)
    show ?thesis using False assms i len lt in'
      by (auto simp: series_nth rows_insert_col_nth columns_insert_col
          index_of_insert_old[OF wf_frame_distinct[OF assms(1)] in'] nth_append min_def)
  qed
qed

subsection \<open>Cleaning steps of the Mapping Table Loader\<close>

lemma unique_from_set: "set (unique_from seen xs) = set xs - set seen"
  by (induction xs arbitrary: seen) auto

lemma unique_from_distinct: "distinct (unique_from seen xs)"
  by (induction xs arbitrary: seen) (auto simp: unique_from_set)

lemma distinct_unique: "distinct (unique xs)"
  by (simp add: unique_def unique_from_distinct)

lemma set_unique: "set (unique xs) = set xs"
  by (simp add: unique_def unique_from_set)

lemma update_as_zip_map:
  "length cols = length r \<Longrightarrow> distinct cols \<Longrightarrow> c \<in> set cols \<Longrightarrow>
   r[index_of c cols := f (r ! index_of c cols)] = map (\<lambda>(c', v). if c' = c then f v else v) (zip cols r)"
proof (induction cols r rule: list_induct2)
  case Nil
  then show ?case by simp
next
  case (Cons x xs y ys)
  have same: "x \<notin> set xs \<Longrightarrow> map (\<lambda>(c', v). if c' = x then f v else v) (zip xs ys) = ys"
    using Cons.hyps by (induction xs ys rule: list_induct2) auto
  show ?case
  proof (cases "c = x")
    case True
    then show ?thesis using Cons.prems same by simp
  next
    case False
    then show ?thesis using Cons by simp
  qed
qed

lemma zip_map_absent:
  "length cols = length r \<Longrightarrow> \<forall>c \<in> set cols. \<not> P c \<Longrightarrow>
   map (\<lambda>(c', v). if P c' then f v else v) (zip cols r) = r"
  by (induction cols r rule: list_induct2) auto

lemma zip_map_twice:
  "length cols = length r \<Longrightarrow> \<forall>c \<in> set cols. \<not> (P c \<and> Q c) \<Longrightarrow>
   map (\<lambda>(c', v). if Q c' then f v else v) (zip cols (map (\<lambda>(c', v). if P c' then f v else v) (zip cols r)))
   = map (\<lambda>(c', v). if P c' \<or> Q c' then f v else v) (zip cols r)"
  by (induction cols r rule: list_induct2) auto

lemma columns_map_column [simp]: "columns (map_column f c df) = columns df"
  by (simp add: map_column_def)

lemma strip_column_columns [simp]: "columns (strip_column col df) = columns df"
  by (simp add: strip_column_def)

lemma strip_column_rows:
  assumes "wf_frame df"
  shows "rows (strip_column col df) =
    map (\<lambda>r. map (\<lambda>(c', v). if c' = col then str_strip v else v) (zip (columns df) r)) (rows df)"
proof (cases "col \<in> set (columns df)")
  case True
  have "\<And>r. r \<in> set (rows df) \<Longrightarrow> r[index_of col (columns df) := str_strip (r ! index_of col (columns df))]
      = map (\<lambda>(c', v). if c' = col then str_strip v else v) (zip (columns df) r)"
    using assms True by (intro update_as_zip_map) (simp_all add: wf_frame_row wf_frame_distinct)
  then show ?thesis using True by (simp add: strip_column_def map_column_def get_loc_def)
next
  case False
  have "\<And>r. r \<in> set (rows df) \<Longrightarrow> map (\<lambda>(c', v). if c' = col then str_strip v else v) (zip (columns df) r) = r"
    using assms False by (intro zip_map_absent) (auto simp: wf_frame_row)
  then show ?thesis using False by (simp add: strip_column_def map_idI)
qed

lemma wf_strip_column: "wf_frame df \<Longrightarrow> wf_frame (strip_column col df)"
  by (auto simp: wf_frame_def list_all_iff strip_column_rows)

lemma fold_strip_rows:
  "wf_frame df \<Longrightarrow> distinct cs \<Longrightarrow>
   columns (fold strip_column cs df) = columns df \<and>
   rows (fold strip_column cs df) =
     map (\<lambda>r. map (\<lambda>(c', v). if c' \<in> set cs then str_strip v else v) (zip (columns df) r)) (rows df)"
proof (induction cs arbitrary: df)
  case Nil
  have "\<And>r. r \<in> set (rows df) \<Longrightarrow> map (\<lambda>(c', v). v) (zip (columns df) r) = r"
    using Nil by (simp add: wf_frame_row zip_map_absent[where P="\<lambda>_. False", simplified])
  then show ?case by (simp add: map_idI)
next
  case (Cons c cs)
  have wf': "wf_frame (strip_column c df)" using Cons.prems by (simp add: wf_strip_column)
  have IH: "rows (fold strip_column cs (strip_column c df)) =
     map (\<lambda>r. map (\<lambda>(c', v). if c' \<in> set cs then str_strip v else v) (zip (columns df) r)) (rows (strip_column c df))"
    and IHc: "columns (fold strip_column cs (strip_column c df)) = columns df"
    using Cons.IH[OF wf'] Cons.prems by simp_all
  have comp: "\<And>r. r \<in> set (rows df) \<Longrightarrow>
     map (\<lambda>(c', v). if c' \<in> set cs then str_strip v else v)
        (zip (columns df) (map (\<lambda>(c', v). if c' = c then str_strip v else v) (zip (columns df) r)))
     = map (\<lambda>(c', v). if c' \<in> set (c # cs) then str_strip v else v) (zip (columns df) r)"
    using Cons.prems zip_map_twice[where P="\<lambda>x. x = c" and Q="\<lambda>x. x \<in> set cs" and f=str_strip]
    by (auto simp: wf_frame_row)
  show ?case using IH IHc comp by (simp add: strip_column_rows[OF Cons.prems(1)])
qed

lemma strip_key_columns_rows:
  assumes "wf_frame df"
  shows "columns (strip_key_columns df) = columns df"
    and "rows (strip_key_columns df) = map (strip_row (columns df)) (rows df)"
proof -
  have eq: "strip_key_columns df = fold strip_column strip_columns df"
    by (simp add: strip_key_columns_def)
  have d: "distinct strip_columns" by (simp add: strip_columns_def)
  show "columns (strip_key_columns df) = columns df" using fold_strip_rows[OF assms d] eq by simp
  show "rows (strip_key_columns df) = map (strip_row (columns df)) (rows df)"
    using fold_strip_rows[OF assms d] eq by (simp add: strip_row_def[abs_def])
qed

lemma wf_remove_blank_and_duplicate_rows:
  "wf_frame df \<Longrightarrow> wf_frame (remove_blank_and_duplicate_rows df)"
  by (auto simp: wf_frame_def list_all_iff remove_blank_and_duplicate_rows_def drop_duplicates_def set_unique)

lemma columns_remove_blank_and_duplicate_rows [simp]:
  "columns (remove_blank_and_duplicate_rows df) = columns df"
  by (simp add: remove_blank_and_duplicate_rows_def drop_duplicates_def)

lemma loader_retained_rows:
  "set (rows (remove_blank_and_duplicate_rows raw))
     = {r \<in> set (rows raw). str_strip (r ! get_loc raw ''Error_Type'') \<noteq> ''''}"
  by (auto simp: remove_blank_and_duplicate_rows_def drop_duplicates_def set_unique)

subsection \<open>Stages of the Error Mapping Engine\<close>

lemma dict_zip_dom: "length ks = length vs \<Longrightarrow> (dict_zip ks vs k \<noteq> None) = (k \<in> set ks)"
proof -
  assume l: "length ks = length vs"
  have "map fst (zip ks vs) = ks" using l by simp
  then have "fst ` set (zip ks vs) = set ks" by (metis set_map)
  then show ?thesis by (simp add: dict_zip_def map_of_eq_None_iff)
qed

lemma apply_series_length: "apply_series f xs = Inr ys \<Longrightarrow> length ys = length xs"
  by (induction xs arbitrary: ys) (auto split: sum.splits)

lemma any_true_iff: "any_true msk = (\<exists>i < length msk. msk ! i)"
proof -
  have "any_true msk = (True \<in> set msk)" by (auto simp: any_true_def list_ex_iff)
  also have "\<dots> = (\<exists>i < length msk. msk ! i)" by (metis in_set_conv_nth)
  finally show ?thesis .
qed

lemma rows_eqI:
  assumes "wf_frame df" "wf_frame df'" "columns df' = columns df" "i < length (rows df)" "i < length (rows df')"
    and "\<And>c. c \<in> set (columns df) \<Longrightarrow> series df' c ! i = series df c ! i"
  shows "rows df' ! i = rows df ! i"
proof (rule nth_equalityI)
  show "length (rows df' ! i) = length (rows df ! i)" using assms by (simp add: wf_frame_nth)
next
  fix j assume "j < length (rows df' ! i)"
  then have j: "j < length (columns df)" using assms by (simp add: wf_frame_nth)
  then have c: "columns df ! j \<in> set (columns df)" by simp
  have ix: "index_of (columns df ! j) (columns df) = j"
    using assms(1) j by (simp add: index_of_nth wf_frame_distinct)
  show "rows df' ! i ! j = rows df ! i ! j"
    using assms(6)[OF c] assms(3,4,5) ix by (simp add: series_nth)
qed

lemma update_matched_columns [simp]: "columns (update_matched df msk key em am) = columns df"
  by (simp add: update_matched_def Let_def)

lemma update_matched_frame:
  assumes wf: "wf_frame df" and len: "length msk = length (rows df)"
    and et: "''Error_Type'' \<in> set (columns df)"
  shows "wf_frame (update_matched df msk key em am)"
    and "length (rows (update_matched df msk key em am)) = length (rows df)"
    and "\<And>i. i < length (rows df) \<Longrightarrow> \<not> msk ! i \<Longrightarrow> rows (update_matched df msk key em am) ! i = rows df ! i"
    and "\<And>i c. i < length (rows df) \<Longrightarrow> c \<in> set (columns df) \<Longrightarrow> c \<noteq> ''Error_Type'' \<Longrightarrow> c \<noteq> ''Client_Action'' \<Longrightarrow>
          series (update_matched df msk key em am) c ! i = series df c ! i"
    and "\<And>i. i < length (rows df) \<Longrightarrow> msk ! i \<Longrightarrow>
          series (update_matched df msk key em am) ''Error_Type'' ! i = series_map em (series df key ! i)"
    and "\<And>i. i < length (rows df) \<Longrightarrow> msk ! i \<Longrightarrow> ''Client_Action'' \<in> set (columns df) \<Longrightarrow> key \<in> set (columns df) \<Longrightarrow>
          series (update_matched df msk key em am) ''Client_Action'' ! i =
            fillna (series_map am (if key = ''Error_Type'' then series_map em (series df key ! i) else series df key ! i))"
proof -
  let ?vs1 = "map (series_map em) (series df key)"
  let ?df1 = "loc_set df msk ''Error_Type'' ?vs1"
  let ?vs2 = "map (\<lambda>v. fillna (series_map am v)) (series ?df1 key)"
  have l1: "length ?vs1 = length (rows df)" by simp
  have wf1: "wf_frame ?df1" using wf len l1 by (rule wf_loc_set)
  have n1: "length (rows ?df1) = length (rows df)" using len l1 by (rule length_rows_loc_set)
  have l2: "length ?vs2 = length (rows ?df1)" by simp
  have len1: "length msk = length (rows ?df1)" using len n1 by simp
  have um: "update_matched df msk key em am =
     (if ''Client_Action'' \<in> set (columns df) then loc_set ?df1 msk ''Client_Action'' ?vs2 else ?df1)"
    by (simp add: update_matched_def Let_def)
  show "wf_frame (update_matched df msk key em am)"
    unfolding um using wf1 wf_loc_set[OF wf1 len1 l2] by simp
  show n: "length (rows (update_matched df msk key em am)) = length (rows df)"
    unfolding um using n1 length_rows_loc_set[OF len1 l2] by simp
  show "\<And>i. i < length (rows df) \<Longrightarrow> \<not> msk ! i \<Longrightarrow> rows (update_matched df msk key em am) ! i = rows df ! i"
    unfolding um using rows_loc_set_nth[OF len l1] rows_loc_set_nth[OF len1 l2] n1 by simp
  have ca1: "''Client_Action'' \<in> set (columns df) \<Longrightarrow> ''Client_Action'' \<in> set (columns ?df1)" by simp
  {
    fix i c assume i: "i < length (rows df)" and c: "c \<in> set (columns df)"
      and ne: "c \<noteq> ''Error_Type''" "c \<noteq> ''Client_Action''"
    have i1: "i < length (rows ?df1)" using i n1 by simp
    have c1: "c \<in> set (columns ?df1)" using c by simp
    have a: "series ?df1 c ! i = series df c ! i"
      using series_loc_set_nth[OF wf len l1 et c i] ne by simp
    have "series (update_matched df msk key em am) c ! i = series ?df1 c ! i"
    proof (cases "''Client_Action'' \<in> set (columns df)")
      case True
      then show ?thesis unfolding um using series_loc_set_nth[OF wf1 len1 l2 ca1[OF True] c1 i1] ne by simp
    next
      case False
      then show ?thesis unfolding um by simp
    qed
    then show "series (update_matched df msk key em am) c ! i = series df c ! i" using a by simp
  }
  {
    fix i assume i: "i < length (rows df)" and m: "msk ! i"
    have i1: "i < length (rows ?df1)" using i n1 by simp
    have et1: "''Error_Type'' \<in> set (columns ?df1)" using et by simp
    have a: "series ?df1 ''Error_Type'' ! i = series_map em (series df key ! i)"
      using series_loc_set_nth[OF wf len l1 et et i] m i by simp
    have "series (update_matched df msk key em am) ''Error_Type'' ! i = series ?df1 ''Error_Type'' ! i"
    proof (cases "''Client_Action'' \<in> set (columns df)")
      case True
      then show ?thesis unfolding um using series_loc_set_nth[OF wf1 len1 l2 ca1[OF True] et1 i1] by simp
    next
      case False
      then show ?thesis unfolding um by simp
    qed
    then show "series (update_matched df msk key em am) ''Error_Type'' ! i = series_map em (series df key ! i)"
      using a by simp
  }
  {
    fix i assume i: "i < length (rows df)" and m: "msk ! i"
      and ca: "''Client_Action'' \<in> set (columns df)" and key: "key \<in> set (columns df)"
    have i1: "i < length (rows ?df1)" using i n1 by simp
    have k: "series ?df1 key ! i = (if key = ''Error_Type'' then series_map em (series df key ! i) else series df key ! i)"
      using series_loc_set_nth[OF wf len l1 et key i] m i by simp
    have "series (update_matched df msk key em am) ''Client_Action'' ! i = ?vs2 ! i"
      unfolding um using series_loc_set_nth[OF wf1 len1 l2 ca1[OF ca] ca1[OF ca] i1] m ca by simp
    also have "\<dots> = fillna (series_map am (series ?df1 key ! i))" using i1 by simp
    finally show "series (update_matched df msk key em am) ''Client_Action'' ! i =
            fillna (series_map am (if key = ''Error_Type'' then series_map em (series df key ! i) else series df key ! i))"
      using k by simp
  }
qed

lemma length_ack_composite_keys [simp]: "length (ack_composite_keys df) = length (rows df)"
  by (simp add: ack_composite_keys_def)

lemma length_mapping_composite_keys [simp]:
  "length (mapping_composite_keys (series m a) (series m b)) = length (rows m)"
  by (simp add: mapping_composite_keys_def)

lemma strategy1_skip:
  "\<not> (''Transaction_Reason_Text'' \<in> set (columns df) \<and> ''file_type_2'' \<in> set (columns m)) \<Longrightarrow>
   strategy1 df m er = Inr (df, None, 0)"
  by (auto simp: strategy1_def)

lemma strategy1_run:
  assumes g: "''Transaction_Reason_Text'' \<in> set (columns df)" "''file_type_2'' \<in> set (columns m)"
    and res: "strategy1 df m er = Inr (df', em, a)"
  defines "df1 \<equiv> setitem df ''composite_key'' (map Str (ack_composite_keys df))"
    and "mkeys \<equiv> mapping_composite_keys (series m ''Error_Type'') (series m ''file_type_2'')"
  defines "msk \<equiv> map (\<lambda>(e, k). e \<and> isin (dict_zip mkeys (series m ''Client_Error_Type'')) k)
                    (zip er (series df1 ''composite_key''))"
  shows "em = Some msk"
    and "df' = (if any_true msk
                then update_matched df1 msk ''composite_key'' (dict_zip mkeys (series m ''Client_Error_Type''))
                       (dict_zip mkeys (series m ''Client Action''))
                else df1)"
  using res g unfolding strategy1_def getitem_def Let_def df1_def mkeys_def msk_def
  by (auto split: if_splits)

lemma series_composite_key:
  assumes "wf_frame df"
  shows "series (setitem df ''composite_key'' (map Str (ack_composite_keys df))) ''composite_key''
         = map Str (ack_composite_keys df)"
  using series_setitem[OF assms, of "map Str (ack_composite_keys df)" "''composite_key''" "''composite_key''"]
  by simp

lemma strategy1_mask:
  assumes wf: "wf_frame df"
    and g: "''Transaction_Reason_Text'' \<in> set (columns df)" "''file_type_2'' \<in> set (columns m)"
    and res: "strategy1 df m er = Inr (df', em, a)"
  shows "em = Some (map (\<lambda>(e, k). e \<and> k \<in> set (mapping_composite_keys (series m ''Error_Type'') (series m ''file_type_2'')))
                     (zip er (ack_composite_keys df)))"
proof -
  let ?mkeys = "mapping_composite_keys (series m ''Error_Type'') (series m ''file_type_2'')"
  let ?cem = "dict_zip ?mkeys (series m ''Client_Error_Type'')"
  have dom: "\<And>k. isin ?cem (Str k) = (k \<in> set ?mkeys)"
    using dict_zip_dom[of ?mkeys "series m ''Client_Error_Type''"] by (simp add: isin_def)
  have "map (\<lambda>(e, k). e \<and> isin ?cem k) (zip er (map Str (ack_composite_keys df)))
      = map (\<lambda>(e, k). e \<and> k \<in> set ?mkeys) (zip er (ack_composite_keys df))"
    by (simp add: zip_map2 dom case_prod_unfold)
  then show ?thesis using strategy1_run(1)[OF g res] series_composite_key[OF wf] by simp
qed

lemma series_of_unchanged_row:
  "columns df' = columns df \<Longrightarrow> i < length (rows df) \<Longrightarrow> i < length (rows df') \<Longrightarrow>
   rows df' ! i = rows df ! i \<Longrightarrow> series df' c ! i = series df c ! i"
  by (simp add: series_nth)

lemma strategy1_frame:
  assumes wf: "wf_frame df" and len: "length er = length (rows df)"
    and et: "''Error_Type'' \<in> set (columns df)"
    and res: "strategy1 df m er = Inr (df', em, a)"
  shows "wf_frame df'"
    and "length (rows df') = length (rows df)"
    and "columns df' = (if ''Transaction_Reason_Text'' \<in> set (columns df) \<and> ''file_type_2'' \<in> set (columns m)
            \<and> ''composite_key'' \<notin> set (columns df) then columns df @ [''composite_key''] else columns df)"
    and "\<And>msk. em = Some msk \<Longrightarrow> length msk = length (rows df)"
    and "\<And>msk i. em = Some msk \<Longrightarrow> i < length (rows df) \<Longrightarrow> msk ! i \<Longrightarrow> er ! i"
    and "\<And>i c. i < length (rows df) \<Longrightarrow> c \<in> set (columns df) \<Longrightarrow> c \<noteq> ''composite_key'' \<Longrightarrow>
          (c \<noteq> ''Error_Type'' \<and> c \<noteq> ''Client_Action'') \<or> (\<forall>msk. em = Some msk \<longrightarrow> \<not> msk ! i) \<Longrightarrow>
          series df' c ! i = series df c ! i"
proof -
  let ?g = "''Transaction_Reason_Text'' \<in> set (columns df) \<and> ''file_type_2'' \<in> set (columns m)"
  let ?vs = "map Str (ack_composite_keys df)"
  let ?df1 = "setitem df ''composite_key'' ?vs"
  let ?mkeys = "mapping_composite_keys (series m ''Error_Type'') (series m ''file_type_2'')"
  let ?cem = "dict_zip ?mkeys (series m ''Client_Error_Type'')"
  let ?cam = "dict_zip ?mkeys (series m ''Client Action'')"
  let ?msk = "map (\<lambda>(e, k). e \<and> isin ?cem k) (zip er (series ?df1 ''composite_key''))"
  let ?um = "update_matched ?df1 ?msk ''composite_key'' ?cem ?cam"
  have lvs: "length ?vs = length (rows df)" by simp
  have wf1: "wf_frame ?df1" using wf lvs by (rule wf_setitem)
  have n1: "length (rows ?df1) = length (rows df)" using lvs by (rule length_rows_setitem)
  have c1: "columns ?df1 = (if ''composite_key'' \<in> set (columns df) then columns df else columns df @ [''composite_key''])"
    by (rule columns_setitem)
  have et1: "''Error_Type'' \<in> set (columns ?df1)" using et c1 by simp
  have lm: "length ?msk = length (rows ?df1)" using len n1 by simp
  have s1: "\<And>c. c \<in> set (columns df) \<Longrightarrow> c \<noteq> ''composite_key'' \<Longrightarrow> series ?df1 c = series df c"
    using series_setitem[OF wf lvs] by simp
  have in1: "\<And>c. c \<in> set (columns df) \<Longrightarrow> c \<in> set (columns ?df1)" using c1 by simp
  note um = update_matched_frame[OF wf1 lm et1, where key="''composite_key''" and em="?cem" and am="?cam"]
  have mi: "\<And>i. i < length (rows df) \<Longrightarrow> ?msk ! i \<Longrightarrow> er ! i"
    using len n1 by simp
  have skip: "\<not> ?g \<Longrightarrow> df' = df \<and> em = None"
    using strategy1_skip[of df m er] res by simp
  have run: "?g \<Longrightarrow> em = Some ?msk \<and> df' = (if any_true ?msk then ?um else ?df1)"
    using strategy1_run[OF _ _ res] by simp
  show "wf_frame df'"
    using skip run wf wf1 um(1) by (cases ?g) auto
  show "length (rows df') = length (rows df)"
    using skip run n1 um(2) by (cases ?g) auto
  show "columns df' = (if ''Transaction_Reason_Text'' \<in> set (columns df) \<and> ''file_type_2'' \<in> set (columns m)
            \<and> ''composite_key'' \<notin> set (columns df) then columns df @ [''composite_key''] else columns df)"
    using skip run c1 by (cases ?g) auto
  show "\<And>msk. em = Some msk \<Longrightarrow> length msk = length (rows df)"
    using skip run lm n1 by (cases ?g) auto
  show "\<And>msk i. em = Some msk \<Longrightarrow> i < length (rows df) \<Longrightarrow> msk ! i \<Longrightarrow> er ! i"
    using skip run mi by (cases ?g) auto
  show "\<And>i c. i < length (rows df) \<Longrightarrow> c \<in> set (columns df) \<Longrightarrow> c \<noteq> ''composite_key'' \<Longrightarrow>
          (c \<noteq> ''Error_Type'' \<and> c \<noteq> ''Client_Action'') \<or> (\<forall>msk. em = Some msk \<longrightarrow> \<not> msk ! i) \<Longrightarrow>
          series df' c ! i = series df c ! i"
  proof -
    fix i c assume i: "i < length (rows df)" and cc: "c \<in> set (columns df)" and ne: "c \<noteq> ''composite_key''"
      and h: "(c \<noteq> ''Error_Type'' \<and> c \<noteq> ''Client_Action'') \<or> (\<forall>msk. em = Some msk \<longrightarrow> \<not> msk ! i)"
    show "series df' c ! i = series df c ! i"
    proof (cases ?g)
      case False
      then show ?thesis using skip by simp
    next
      case True
      then have em: "em = Some ?msk" and df': "df' = (if any_true ?msk then ?um else ?df1)" using run by simp_all
      have h': "(c \<noteq> ''Error_Type'' \<and> c \<noteq> ''Client_Action'') \<or> \<not> ?msk ! i" using h em by simp
      have i1: "i < length (rows ?df1)" using i n1 by simp
      have "series ?um c ! i = series ?df1 c ! i"
      proof (cases "\<not> ?msk ! i")
        case True
        have "rows ?um ! i = rows ?df1 ! i" using um(3)[OF i1 True] .
        then show ?thesis using i1 um(2) by (intro series_of_unchanged_row) simp_all
      next
        case False
        then have "c \<noteq> ''Error_Type''" "c \<noteq> ''Client_Action''" using h' by simp_all
        then show ?thesis using um(4)[OF i1 in1[OF cc]] by simp
      qed
      then have "series df' c ! i = series ?df1 c ! i" unfolding df' by simp
      then show ?thesis using s1[OF cc ne] by simp
    qed
  qed
qed

lemma length_remaining_errors_of:
  "length er = n \<Longrightarrow> \<forall>msk. em = Some msk \<longrightarrow> length msk = n \<Longrightarrow> length (remaining_errors_of er em) = n"
  by (cases em) (simp_all add: remaining_errors_of_def)

lemma remaining_errors_of_nth:
  "length er = n \<Longrightarrow> \<forall>msk. em = Some msk \<longrightarrow> length msk = n \<Longrightarrow> i < n \<Longrightarrow>
   remaining_errors_of er em ! i = (er ! i \<and> (\<forall>msk. em = Some msk \<longrightarrow> \<not> msk ! i))"
  by (cases em) (simp_all add: remaining_errors_of_def)

lemma strategy2_skip:
  "\<not> any_true (remaining_errors_of er em) \<Longrightarrow> strategy2 df m er em = Inr (df, None, 0)"
  by (simp add: strategy2_def Let_def)

lemma strategy2_run:
  assumes g: "any_true (remaining_errors_of er em)"
    and res: "strategy2 df m er em = Inr (df', smm, a)"
  defines "sem \<equiv> dict_zip (series m ''Error_Type'') (series m ''Client_Error_Type'')"
    and "sam \<equiv> dict_zip (series m ''Error_Type'') (series m ''Client Action'')"
  defines "msk \<equiv> map (\<lambda>(r, v). r \<and> isin sem v) (zip (remaining_errors_of er em) (series df ''Error_Type''))"
  shows "smm = Some msk"
    and "df' = (if any_true msk then update_matched df msk ''Error_Type'' sem sam else df)"
  using res g unfolding strategy2_def getitem_def Let_def sem_def sam_def msk_def
  by (auto split: if_splits)

lemma strategy2_frame:
  assumes wf: "wf_frame df" and len: "length er = length (rows df)"
    and lem: "\<forall>msk. em = Some msk \<longrightarrow> length msk = length (rows df)"
    and et: "''Error_Type'' \<in> set (columns df)"
    and res: "strategy2 df m er em = Inr (df', smm, a)"
  shows "wf_frame df'"
    and "length (rows df') = length (rows df)"
    and "columns df' = columns df"
    and "\<And>msk. smm = Some msk \<Longrightarrow> length msk = length (rows df)"
    and "\<And>msk i. smm = Some msk \<Longrightarrow> i < length (rows df) \<Longrightarrow> msk ! i \<Longrightarrow>
           er ! i \<and> (\<forall>msk1. em = Some msk1 \<longrightarrow> \<not> msk1 ! i)"
    and "\<And>i. i < length (rows df) \<Longrightarrow> \<forall>msk. smm = Some msk \<longrightarrow> \<not> msk ! i \<Longrightarrow> rows df' ! i = rows df ! i"
    and "\<And>i c. i < length (rows df) \<Longrightarrow> c \<in> set (columns df) \<Longrightarrow> c \<noteq> ''Error_Type'' \<Longrightarrow> c \<noteq> ''Client_Action'' \<Longrightarrow>
          series df' c ! i = series df c ! i"
proof -
  let ?g = "any_true (remaining_errors_of er em)"
  let ?rem = "remaining_errors_of er em"
  let ?sem = "dict_zip (series m ''Error_Type'') (series m ''Client_Error_Type'')"
  let ?sam = "dict_zip (series m ''Error_Type'') (series m ''Client Action'')"
  let ?msk = "map (\<lambda>(r, v). r \<and> isin ?sem v) (zip ?rem (series df ''Error_Type''))"
  let ?um = "update_matched df ?msk ''Error_Type'' ?sem ?sam"
  have lr: "length ?rem = length (rows df)" using len lem by (rule length_remaining_errors_of)
  have lm: "length ?msk = length (rows df)" using lr by simp
  note um = update_matched_frame[OF wf lm et, where key="''Error_Type''" and em="?sem" and am="?sam"]
  have mi: "\<And>i. i < length (rows df) \<Longrightarrow> ?msk ! i \<Longrightarrow> er ! i \<and> (\<forall>msk1. em = Some msk1 \<longrightarrow> \<not> msk1 ! i)"
    using lr remaining_errors_of_nth[OF len lem] by simp
  have skip: "\<not> ?g \<Longrightarrow> df' = df \<and> smm = None"
    using strategy2_skip[of er em df m] res by simp
  have run: "?g \<Longrightarrow> smm = Some ?msk \<and> df' = (if any_true ?msk then ?um else df)"
    using strategy2_run[OF _ res] by simp
  show "wf_frame df'"
    using skip run wf um(1) by (cases ?g) auto
  show "length (rows df') = length (rows df)"
    using skip run um(2) by (cases ?g) auto
  show "columns df' = columns df"
    using skip run by (cases ?g) auto
  show "\<And>msk. smm = Some msk \<Longrightarrow> length msk = length (rows df)"
    using skip run lm by (cases ?g) auto
  show "\<And>msk i. smm = Some msk \<Longrightarrow> i < length (rows df) \<Longrightarrow> msk ! i \<Longrightarrow>
           er ! i \<and> (\<forall>msk1. em = Some msk1 \<longrightarrow> \<not> msk1 ! i)"
  proof -
    fix msk i assume s: "smm = Some msk" and i: "i < length (rows df)" and m: "msk ! i"
    have g: ?g using skip s by (cases ?g) auto
    then have "msk = ?msk" using run s by simp
    then show "er ! i \<and> (\<forall>msk1. em = Some msk1 \<longrightarrow> \<not> msk1 ! i)" using mi[OF i] m by simp
  qed
  show "\<And>i. i < length (rows df) \<Longrightarrow> \<forall>msk. smm = Some msk \<longrightarrow> \<not> msk ! i \<Longrightarrow> rows df' ! i = rows df ! i"
  proof -
    fix i assume i: "i < length (rows df)" and n: "\<forall>msk. smm = Some msk \<longrightarrow> \<not> msk ! i"
    show "rows df' ! i = rows df ! i"
    proof (cases ?g)
      case False
      then show ?thesis using skip by simp
    next
      case True
      then have s: "smm = Some ?msk" and d: "df' = (if any_true ?msk then ?um else df)" using run by simp_all
      have "\<not> ?msk ! i" using n s by blast
      then have "rows ?um ! i = rows df ! i" using um(3)[OF i] by simp
      then show ?thesis unfolding d by simp
    qed
  qed
  show "\<And>i c. i < length (rows df) \<Longrightarrow> c \<in> set (columns df) \<Longrightarrow> c \<noteq> ''Error_Type'' \<Longrightarrow> c \<noteq> ''Client_Action'' \<Longrightarrow>
          series df' c ! i = series df c ! i"
  proof -
    fix i c assume i: "i < length (rows df)" and c: "c \<in> set (columns df)"
      and ne: "c \<noteq> ''Error_Type''" "c \<noteq> ''Client_Action''"
    show "series df' c ! i = series df c ! i"
    proof (cases ?g)
      case False
      then show ?thesis using skip by simp
    next
      case True
      then have d: "df' = (if any_true ?msk then ?um else df)" using run by simp
      have "series ?um c ! i = series df c ! i" using um(4)[OF i c ne] .
      then show ?thesis unfolding d by simp
    qed
  qed
qed

lemma add_reason_text_frame:
  assumes wf: "wf_frame df" and res: "add_reason_text df = Inr df1"
  shows "wf_frame df1"
    and "length (rows df1) = length (rows df)"
    and "columns df1 = (if ''Transaction_Reason'' \<in> set (columns df) \<and> ''Transaction_Reason_Text'' \<notin> set (columns df)
           then columns df @ [''Transaction_Reason_Text''] else columns df)"
    and "\<And>c. c \<in> set (columns df) \<Longrightarrow> c \<noteq> ''Transaction_Reason_Text'' \<Longrightarrow> series df1 c = series df c"
proof -
  have "wf_frame df1 \<and> length (rows df1) = length (rows df) \<and>
    columns df1 = (if ''Transaction_Reason'' \<in> set (columns df) \<and> ''Transaction_Reason_Text'' \<notin> set (columns df)
           then columns df @ [''Transaction_Reason_Text''] else columns df) \<and>
    (\<forall>c. c \<in> set (columns df) \<longrightarrow> c \<noteq> ''Transaction_Reason_Text'' \<longrightarrow> series df1 c = series df c)"
  proof (cases "''Transaction_Reason'' \<in> set (columns df)")
    case False
    then have "df1 = df" using res by (simp add: add_reason_text_def)
    then show ?thesis using wf False by simp
  next
    case True
    then obtain texts where tx: "apply_series get_transaction_reason_text (series df ''Transaction_Reason'') = Inr texts"
      and d: "df1 = setitem df ''Transaction_Reason_Text'' (map Str texts)"
      using res by (auto simp: add_reason_text_def split: sum.splits)
    have l: "length (map Str texts) = length (rows df)" using apply_series_length[OF tx] by simp
    show ?thesis unfolding d
      using True wf_setitem[OF wf l] length_rows_setitem[OF l] series_setitem[OF wf l]
      by (simp add: columns_setitem)
  qed
  then show "wf_frame df1"
    and "length (rows df1) = length (rows df)"
    and "columns df1 = (if ''Transaction_Reason'' \<in> set (columns df) \<and> ''Transaction_Reason_Text'' \<notin> set (columns df)
           then columns df @ [''Transaction_Reason_Text''] else columns df)"
    and "\<And>c. c \<in> set (columns df) \<Longrightarrow> c \<noteq> ''Transaction_Reason_Text'' \<Longrightarrow> series df1 c = series df c"
    by simp_all
qed

lemma finish_mapping_frame:
  "finish_mapping df er em smm a = Inr (out, rep) \<Longrightarrow>
   out = drop_columns (drop_columns df [''composite_key'']) [''Transaction_Reason_Text'']"
  by (auto simp: finish_mapping_def Let_def split: sum.splits)

lemma length_error_rows_of [simp]: "length (error_rows_of df) = length (rows df)"
  by (simp add: error_rows_of_def)

lemma apply_error_mapping_try_cases:
  assumes "apply_error_mapping_try ack m = Inr (out, rep)"
  shows "out = ack \<or>
    (''Error_Type'' \<in> set (columns ack) \<and>
     (\<exists>df1 df2 em a1 df3 smm a2.
        add_reason_text ack = Inr df1 \<and>
        strategy1 df1 m (error_rows_of ack) = Inr (df2, em, a1) \<and>
        strategy2 df2 m (error_rows_of ack) em = Inr (df3, smm, a2) \<and>
        finish_mapping df3 (error_rows_of ack) em smm (a1 + a2) = Inr (out, rep)))"
  using assms
  by (auto simp: apply_error_mapping_try_def Let_def split: if_splits sum.splits prod.splits)

lemma engine_stages_frame:
  assumes wf: "wf_frame ack" and et: "''Error_Type'' \<in> set (columns ack)"
    and r1: "add_reason_text ack = Inr df1"
    and r2: "strategy1 df1 m (error_rows_of ack) = Inr (df2, em, a1)"
    and r3: "strategy2 df2 m (error_rows_of ack) em = Inr (df3, smm, a2)"
    and out: "out = drop_columns (drop_columns df3 [''composite_key'']) [''Transaction_Reason_Text'']"
  shows "wf_frame out"
    and "length (rows out) = length (rows ack)"
    and "columns out = filter (\<lambda>c. c \<noteq> ''composite_key'' \<and> c \<noteq> ''Transaction_Reason_Text'') (columns ack)"
    and "\<And>i c. i < length (rows ack) \<Longrightarrow> c \<in> set (columns out) \<Longrightarrow>
          (c \<noteq> ''Error_Type'' \<and> c \<noteq> ''Client_Action'') \<or> \<not> error_rows_of ack ! i \<Longrightarrow>
          series out c ! i = series ack c ! i"
proof -
  let ?er = "error_rows_of ack"
  note f1 = add_reason_text_frame[OF wf r1]
  have et1: "''Error_Type'' \<in> set (columns df1)" using et f1(3) by simp
  have l1: "length ?er = length (rows df1)" using f1(2) by simp
  note f2 = strategy1_frame[OF f1(1) l1 et1 r2]
  have et2: "''Error_Type'' \<in> set (columns df2)" using et1 f2(3) by simp
  have l2: "length ?er = length (rows df2)" using f2(2) l1 by simp
  have lem: "\<forall>msk. em = Some msk \<longrightarrow> length msk = length (rows df2)" using f2(4) f2(2) by simp
  note f3 = strategy2_frame[OF f2(1) l2 lem et2 r3]
  let ?d1 = "drop_columns df3 [''composite_key'']"
  have wfd1: "wf_frame ?d1" using f3(1) by (rule wf_drop_columns)
  show "wf_frame out" unfolding out using wfd1 by (rule wf_drop_columns)
  show "length (rows out) = length (rows ack)" unfolding out using f3(2) f2(2) f1(2) by simp
  have c3: "columns df3 = columns df2" by (rule f3(3))
  have cout: "columns out = filter (\<lambda>c. c \<noteq> ''composite_key'' \<and> c \<noteq> ''Transaction_Reason_Text'') (columns df3)"
    unfolding out by (simp add: columns_drop_columns conj_commute)
  show cols: "columns out = filter (\<lambda>c. c \<noteq> ''composite_key'' \<and> c \<noteq> ''Transaction_Reason_Text'') (columns ack)"
    unfolding cout c3 f2(3) f1(3) by simp
  fix i c assume i: "i < length (rows ack)" and c: "c \<in> set (columns out)"
    and h: "(c \<noteq> ''Error_Type'' \<and> c \<noteq> ''Client_Action'') \<or> \<not> ?er ! i"
  have ca: "c \<in> set (columns ack)" and ne: "c \<noteq> ''composite_key''" "c \<noteq> ''Transaction_Reason_Text''"
    using c cols by simp_all
  have cc1: "c \<in> set (columns df1)" using ca f1(3) by simp
  have cc2: "c \<in> set (columns df2)" using cc1 f2(3) by simp
  have cc3: "c \<in> set (columns df3)" using cc2 c3 by simp
  have i1: "i < length (rows df1)" using i f1(2) by simp
  have i2: "i < length (rows df2)" using i1 f2(2) by simp
  have i3: "i < length (rows df3)" using i2 f3(2) by simp
  have s43: "series out c ! i = series df3 c ! i"
  proof -
    have "c \<in> set (columns ?d1)" using cc3 ne by (simp add: columns_drop_columns)
    then have "series out c = series ?d1 c" unfolding out using wfd1 ne by (intro series_drop_columns) simp_all
    also have "\<dots> = series df3 c" using f3(1) cc3 ne by (intro series_drop_columns) simp_all
    finally show ?thesis by simp
  qed
  have s32: "series df3 c ! i = series df2 c ! i"
  proof (cases "c \<noteq> ''Error_Type'' \<and> c \<noteq> ''Client_Action''")
    case True
    then show ?thesis using f3(7)[OF i2 cc2] by simp
  next
    case False
    then have ner: "\<not> ?er ! i" using h by blast
    have "\<forall>msk. smm = Some msk \<longrightarrow> \<not> msk ! i" using f3(5)[OF _ i2] ner by blast
    then have "rows df3 ! i = rows df2 ! i" using f3(6)[OF i2] by simp
    then show ?thesis using c3 i2 i3 by (intro series_of_unchanged_row) simp_all
  qed
  have s21: "series df2 c ! i = series df1 c ! i"
  proof -
    have "(c \<noteq> ''Error_Type'' \<and> c \<noteq> ''Client_Action'') \<or> (\<forall>msk. em = Some msk \<longrightarrow> \<not> msk ! i)"
      using h f2(5)[OF _ i1] by blast
    then show ?thesis using f2(6)[OF i1 cc1 ne(1)] by simp
  qed
  have s10: "series df1 c = series ack c" using f1(4)[OF ca ne(2)] .
  show "series out c ! i = series ack c ! i" using s43 s32 s21 s10 by simp
qed

lemma engine_frame:
  assumes wf: "wf_frame ack"
  shows "wf_frame (fst (apply_error_mapping ack m))"
    and "length (rows (fst (apply_error_mapping ack m))) = length (rows ack)"
    and "columns (fst (apply_error_mapping ack m)) = columns ack \<or>
         columns (fst (apply_error_mapping ack m))
           = filter (\<lambda>c. c \<noteq> ''composite_key'' \<and> c \<noteq> ''Transaction_Reason_Text'') (columns ack)"
    and "\<And>i c. i < length (rows ack) \<Longrightarrow> c \<in> set (columns (fst (apply_error_mapping ack m))) \<Longrightarrow>
          (c \<noteq> ''Error_Type'' \<and> c \<noteq> ''Client_Action'') \<or> \<not> error_rows_of ack ! i \<Longrightarrow>
          series (fst (apply_error_mapping ack m)) c ! i = series ack c ! i"
proof -
  let ?out = "fst (apply_error_mapping ack m)"
  have "?out = ack \<or> (''Error_Type'' \<in> set (columns ack) \<and> (\<exists>df1 df2 em a1 df3 smm a2.
        add_reason_text ack = Inr df1 \<and>
        strategy1 df1 m (error_rows_of ack) = Inr (df2, em, a1) \<and>
        strategy2 df2 m (error_rows_of ack) em = Inr (df3, smm, a2) \<and>
        ?out = drop_columns (drop_columns df3 [''composite_key'']) [''Transaction_Reason_Text'']))"
  proof (cases "apply_error_mapping_try ack m")
    case (Inl e)
    then show ?thesis by (simp add: apply_error_mapping_def)
  next
    case (Inr res)
    obtain out rep where res: "res = (out, rep)" by (cases res)
    have o: "?out = out" using Inr res by (simp add: apply_error_mapping_def)
    show ?thesis
      using apply_error_mapping_try_cases[OF Inr[unfolded res]] finish_mapping_frame o by metis
  qed
  then consider (same) "?out = ack"
    | (run) df1 df2 em a1 df3 smm a2 where "''Error_Type'' \<in> set (columns ack)"
        "add_reason_text ack = Inr df1" "strategy1 df1 m (error_rows_of ack) = Inr (df2, em, a1)"
        "strategy2 df2 m (error_rows_of ack) em = Inr (df3, smm, a2)"
        "?out = drop_columns (drop_columns df3 [''composite_key'']) [''Transaction_Reason_Text'']"
    by blast
  then have all: "wf_frame ?out \<and> length (rows ?out) = length (rows ack) \<and>
     (columns ?out = columns ack \<or>
      columns ?out = filter (\<lambda>c. c \<noteq> ''composite_key'' \<and> c \<noteq> ''Transaction_Reason_Text'') (columns ack)) \<and>
     (\<forall>i c. i < length (rows ack) \<longrightarrow> c \<in> set (columns ?out) \<longrightarrow>
          (c \<noteq> ''Error_Type'' \<and> c \<noteq> ''Client_Action'') \<or> \<not> error_rows_of ack ! i \<longrightarrow>
          series ?out c ! i = series ack c ! i)"
  proof cases
    case same
    then show ?thesis using wf by simp
  next
    case run
    note f = engine_stages_frame[OF wf run]
    show ?thesis using f(1) f(2) f(3) f(4) by blast
  qed
  show "wf_frame ?out" using all by blast
  show "length (rows ?out) = length (rows ack)" using all by blast
  show "columns ?out = columns ack \<or>
         columns ?out = filter (\<lambda>c. c \<noteq> ''composite_key'' \<and> c \<noteq> ''Transaction_Reason_Text'') (columns ack)"
    using all by blast
  show "\<And>i c. i < length (rows ack) \<Longrightarrow> c \<in> set (columns ?out) \<Longrightarrow>
          (c \<noteq> ''Error_Type'' \<and> c \<noteq> ''Client_Action'') \<or> \<not> error_rows_of ack ! i \<Longrightarrow>
          series ?out c ! i = series ack c ! i"
    using all by blast
qed

lemma strategy1_matched_values:
  assumes wf: "wf_frame df" and len: "length er = length (rows df)"
    and et: "''Error_Type'' \<in> set (columns df)"
    and res: "strategy1 df m er = Inr (df', Some msk, a)"
    and i: "i < length (rows df)" and m: "msk ! i"
  defines "mkeys \<equiv> mapping_composite_keys (series m ''Error_Type'') (series m ''file_type_2'')"
  shows "series df' ''Error_Type'' ! i
           = series_map (dict_zip mkeys (series m ''Client_Error_Type'')) (Str (ack_composite_keys df ! i))"
    and "''Client_Action'' \<in> set (columns df) \<Longrightarrow>
         series df' ''Client_Action'' ! i
           = fillna (series_map (dict_zip mkeys (series m ''Client Action'')) (Str (ack_composite_keys df ! i)))"
proof -
  let ?g = "''Transaction_Reason_Text'' \<in> set (columns df) \<and> ''file_type_2'' \<in> set (columns m)"
  let ?vs = "map Str (ack_composite_keys df)"
  let ?df1 = "setitem df ''composite_key'' ?vs"
  let ?cem = "dict_zip mkeys (series m ''Client_Error_Type'')"
  let ?cam = "dict_zip mkeys (series m ''Client Action'')"
  let ?msk = "map (\<lambda>(e, k). e \<and> isin ?cem k) (zip er (series ?df1 ''composite_key''))"
  let ?um = "update_matched ?df1 ?msk ''composite_key'' ?cem ?cam"
  have g: ?g using strategy1_skip[of df m er] res by auto
  then have g1: "''Transaction_Reason_Text'' \<in> set (columns df)" and g2: "''file_type_2'' \<in> set (columns m)"
    by simp_all
  have msk: "msk = ?msk" using strategy1_run(1)[OF g1 g2 res] by (simp add: mkeys_def)
  have lvs: "length ?vs = length (rows df)" by simp
  have wf1: "wf_frame ?df1" using wf lvs by (rule wf_setitem)
  have n1: "length (rows ?df1) = length (rows df)" using lvs by (rule length_rows_setitem)
  have c1: "columns ?df1 = (if ''composite_key'' \<in> set (columns df) then columns df else columns df @ [''composite_key''])"
    by (rule columns_setitem)
  have et1: "''Error_Type'' \<in> set (columns ?df1)" using et c1 by simp
  have ck1: "''composite_key'' \<in> set (columns ?df1)" using c1 by simp
  have lm: "length ?msk = length (rows ?df1)" using len n1 by simp
  have i1: "i < length (rows ?df1)" using i n1 by simp
  have mi: "?msk ! i" using m msk by simp
  have any: "any_true ?msk" using mi lm i1 by (auto simp: any_true_iff)
  have df': "df' = ?um" using strategy1_run(2)[OF g1 g2 res] any by (simp add: mkeys_def)
  have key: "series ?df1 ''composite_key'' ! i = Str (ack_composite_keys df ! i)"
    using series_composite_key[OF wf] i by simp
  note um = update_matched_frame[OF wf1 lm et1, where key="''composite_key''" and em="?cem" and am="?cam"]
  show "series df' ''Error_Type'' ! i = series_map ?cem (Str (ack_composite_keys df ! i))"
    unfolding df' using um(5)[OF i1 mi] key by simp
  assume ca: "''Client_Action'' \<in> set (columns df)"
  then have ca1: "''Client_Action'' \<in> set (columns ?df1)" using c1 by simp
  show "series df' ''Client_Action'' ! i = fillna (series_map ?cam (Str (ack_composite_keys df ! i)))"
    unfolding df' using um(6)[OF i1 mi ca1 ck1] key by simp
qed

lemma get_transaction_reason_text_error:
  "get_transaction_reason_text v = Inl e \<Longrightarrow> e = ValueError"
  by (auto simp: get_transaction_reason_text_def py_int_def int_of_digits_def
      split: if_splits sum.splits cell.splits)

lemma apply_series_error:
  "apply_series f xs = Inl e \<Longrightarrow> \<exists>x \<in> set xs. f x = Inl e"
  by (induction xs) (auto split: sum.splits)

lemma add_reason_text_error:
  assumes "add_reason_text df = Inl e"
  shows "e = ValueError \<and> ''Transaction_Reason'' \<in> set (columns df)
     \<and> (\<exists>v \<in> set (series df ''Transaction_Reason''). get_transaction_reason_text v = Inl ValueError)"
proof -
  have tr: "''Transaction_Reason'' \<in> set (columns df)"
    and a: "apply_series get_transaction_reason_text (series df ''Transaction_Reason'') = Inl e"
    using assms by (auto simp: add_reason_text_def split: if_splits sum.splits)
  obtain v where v: "v \<in> set (series df ''Transaction_Reason'')" "get_transaction_reason_text v = Inl e"
    using apply_series_error[OF a] by blast
  have "e = ValueError" using v(2) by (rule get_transaction_reason_text_error)
  then show ?thesis using tr v by blast
qed

lemma strategy1_error:
  assumes "strategy1 df m er = Inl e"
  shows "\<exists>c. e = KeyError c \<and> c \<in> set [''Error_Type'', ''Client_Error_Type'', ''Client Action'']
           \<and> c \<notin> set (columns m)"
  using assms
  by (auto simp: strategy1_def getitem_def Let_def split: if_splits)

lemma strategy2_error:
  assumes "strategy2 df m er em = Inl e"
  shows "\<exists>c. e = KeyError c \<and> c \<in> set [''Error_Type'', ''Client_Error_Type'', ''Client Action'']
           \<and> c \<notin> set (columns m)"
  using assms
  by (auto simp: strategy2_def getitem_def Let_def split: if_splits)

lemma join_items_error:
  "join_items xs = Inl e \<Longrightarrow> e = TypeError \<and> (\<exists>v \<in> set xs. \<forall>s. v \<noteq> Str s)"
  by (induction xs) (auto split: sum.splits cell.splits)

lemma finish_mapping_error:
  assumes "finish_mapping df er em smm a = Inl e"
  shows "e = TypeError \<and> (\<exists>v \<in> set (unmatched_errors_of df er em smm). \<forall>s. v \<noteq> Str s)"
proof -
  have "join_items (take 10 (unmatched_errors_of df er em smm)) = Inl e"
    using assms by (auto simp: finish_mapping_def Let_def split: sum.splits)
  then have "e = TypeError \<and> (\<exists>v \<in> set (take 10 (unmatched_errors_of df er em smm)). \<forall>s. v \<noteq> Str s)"
    by (rule join_items_error)
  then show ?thesis by (blast dest: in_set_takeD)
qed

lemma finish_mapping_report:
  "finish_mapping df er em smm a = Inr (out, rep) \<Longrightarrow> \<exists>n t shown more. rep = Coverage n t shown more"
  by (auto simp: finish_mapping_def Let_def split: sum.splits)

lemma mask_or_false_nth:
  "i < n \<Longrightarrow> mask_or_false n em ! i = (\<exists>msk. em = Some msk \<and> msk ! i)"
  by (cases em) (simp_all add: mask_or_false_def)

lemma length_mask_or_false:
  "\<forall>msk. em = Some msk \<longrightarrow> length msk = n \<Longrightarrow> length (mask_or_false n em) = n"
  by (cases em) (simp_all add: mask_or_false_def)

lemma unmatched_errors_cases:
  assumes len: "length er = length (rows df)"
    and le: "\<forall>msk. em = Some msk \<longrightarrow> length msk = length (rows df)"
    and ls: "\<forall>msk. smm = Some msk \<longrightarrow> length msk = length (rows df)"
    and v: "v \<in> set (unmatched_errors_of df er em smm)"
  shows "\<exists>i < length (rows df). er ! i \<and> \<not> (\<exists>msk. em = Some msk \<and> msk ! i)
           \<and> \<not> (\<exists>msk. smm = Some msk \<and> msk ! i) \<and> series df ''Error_Type'' ! i = v"
proof -
  define n where "n = length (rows df)"
  define m1 where "m1 = mask_or_false n em"
  define m2 where "m2 = mask_or_false n smm"
  define al where "al = map (\<lambda>(a, b). a \<or> b) (zip m1 m2)"
  define um where "um = map (\<lambda>(e, a). e \<and> \<not> a) (zip er al)"
  define S where "S = series df ''Error_Type''"
  have l1: "length m1 = n" unfolding m1_def n_def using le by (rule length_mask_or_false)
  have l2: "length m2 = n" unfolding m2_def n_def using ls by (rule length_mask_or_false)
  have la: "length al = n" unfolding al_def using l1 l2 by simp
  have lu: "length um = n" unfolding um_def using la len n_def by simp
  have lS: "length S = n" unfolding S_def n_def by simp
  have ue: "unmatched_errors_of df er em smm = (if any_true um then unique (map snd (filter fst (zip um S))) else [])"
    unfolding unmatched_errors_of_def Let_def um_def al_def m1_def m2_def n_def S_def by (rule refl)
  have "v \<in> set (map snd (filter fst (zip um S)))"
    using v unfolding ue by (simp add: set_unique split: if_splits)
  then have "(True, v) \<in> set (zip um S)" by auto
  then have "\<exists>i. um ! i = fst (True, v) \<and> S ! i = snd (True, v) \<and> i < length um \<and> i < length S"
    by (simp only: in_set_zip)
  then obtain i where u: "um ! i" and s: "S ! i = v" and i: "i < n"
    using lu by auto
  have "um ! i = (er ! i \<and> \<not> al ! i)"
    unfolding um_def using i la len n_def by simp
  moreover have "al ! i = (m1 ! i \<or> m2 ! i)"
    unfolding al_def using i l1 l2 by simp
  moreover have "m1 ! i = (\<exists>msk. em = Some msk \<and> msk ! i)"
    unfolding m1_def using i by (rule mask_or_false_nth)
  moreover have "m2 ! i = (\<exists>msk. smm = Some msk \<and> msk ! i)"
    unfolding m2_def using i by (rule mask_or_false_nth)
  ultimately have "er ! i \<and> \<not> (\<exists>msk. em = Some msk \<and> msk ! i) \<and> \<not> (\<exists>msk. smm = Some msk \<and> msk ! i)"
    using u by blast
  then show ?thesis using i s unfolding n_def S_def by blast
qed

lemma apply_error_mapping_try_Inl_cases:
  assumes "apply_error_mapping_try ack m = Inl e"
  shows "''Error_Type'' \<in> set (columns ack) \<and> ''isError'' \<in> set (columns ack)
     \<and> any_true (error_rows_of ack)
     \<and> (add_reason_text ack = Inl e
        \<or> (\<exists>df1. add_reason_text ack = Inr df1
             \<and> (strategy1 df1 m (error_rows_of ack) = Inl e
                \<or> (\<exists>df2 em a1. strategy1 df1 m (error_rows_of ack) = Inr (df2, em, a1)
                     \<and> (strategy2 df2 m (error_rows_of ack) em = Inl e
                        \<or> (\<exists>df3 smm a2. strategy2 df2 m (error_rows_of ack) em = Inr (df3, smm, a2)
                             \<and> finish_mapping df3 (error_rows_of ack) em smm (a1 + a2) = Inl e))))))"
  using assms
  by (auto simp: apply_error_mapping_try_def Let_def split: if_splits sum.splits prod.splits)

lemma apply_error_mapping_try_report:
  assumes "apply_error_mapping_try ack m = Inr (out, rep)"
  shows "rep \<noteq> Failed e"
proof -
  have "rep = Skipped (filter (\<lambda>col. col \<notin> set (columns ack)) [''Error_Type'', ''isError''])
      \<or> rep = NoErrorRows
      \<or> (\<exists>df er em smm a. finish_mapping df er em smm a = Inr (out, rep))"
    using assms
    by (auto simp: apply_error_mapping_try_def Let_def split: if_splits sum.splits prod.splits)
  then show ?thesis using finish_mapping_report by fastforce
qed

lemma engine_failure_causes:
  assumes wf: "wf_frame ack" and f: "apply_error_mapping_try ack m = Inl e"
  shows "(e = ValueError \<and> ''Transaction_Reason'' \<in> set (columns ack)
          \<and> (\<exists>v \<in> set (series ack ''Transaction_Reason''). get_transaction_reason_text v = Inl ValueError))
       \<or> (\<exists>c. e = KeyError c \<and> c \<in> set [''Error_Type'', ''Client_Error_Type'', ''Client Action'']
              \<and> c \<notin> set (columns m))
       \<or> (e = TypeError
          \<and> (\<exists>i < length (rows ack). error_rows_of ack ! i \<and> (\<forall>s. series ack ''Error_Type'' ! i \<noteq> Str s)))"
proof -
  let ?er = "error_rows_of ack"
  note cs = apply_error_mapping_try_Inl_cases[OF f]
  have et: "''Error_Type'' \<in> set (columns ack)" using cs by blast
  consider (a) "add_reason_text ack = Inl e"
    | (b) df1 where "add_reason_text ack = Inr df1" "strategy1 df1 m ?er = Inl e"
    | (c) df1 df2 em a1 where "add_reason_text ack = Inr df1" "strategy1 df1 m ?er = Inr (df2, em, a1)"
        "strategy2 df2 m ?er em = Inl e"
    | (d) df1 df2 em a1 df3 smm a2 where "add_reason_text ack = Inr df1"
        "strategy1 df1 m ?er = Inr (df2, em, a1)" "strategy2 df2 m ?er em = Inr (df3, smm, a2)"
        "finish_mapping df3 ?er em smm (a1 + a2) = Inl e"
    using cs by blast
  then show ?thesis
  proof cases
    case a
    then show ?thesis using add_reason_text_error by blast
  next
    case b
    then show ?thesis using strategy1_error by blast
  next
    case c
    then show ?thesis using strategy2_error by blast
  next
    case d
    note f1 = add_reason_text_frame[OF wf d(1)]
    have et1: "''Error_Type'' \<in> set (columns df1)" using et f1(3) by simp
    have l1: "length ?er = length (rows df1)" using f1(2) by simp
    note f2 = strategy1_frame[OF f1(1) l1 et1 d(2)]
    have et2: "''Error_Type'' \<in> set (columns df2)" using et1 f2(3) by simp
    have l2: "length ?er = length (rows df2)" using f2(2) l1 by simp
    have lem: "\<forall>msk. em = Some msk \<longrightarrow> length msk = length (rows df2)" using f2(4) f2(2) by simp
    note f3 = strategy2_frame[OF f2(1) l2 lem et2 d(3)]
    have l3: "length ?er = length (rows df3)" using l2 f3(2) by simp
    have lem3: "\<forall>msk. em = Some msk \<longrightarrow> length msk = length (rows df3)" using lem f3(2) by simp
    have ls3: "\<forall>msk. smm = Some msk \<longrightarrow> length msk = length (rows df3)" using f3(4) f3(2) by simp
    obtain v where ty: "e = TypeError" and v: "v \<in> set (unmatched_errors_of df3 ?er em smm)"
      and ns: "\<forall>s. v \<noteq> Str s"
      using finish_mapping_error[OF d(4)] by blast
    obtain i where i3: "i < length (rows df3)" and eri: "?er ! i"
      and n1: "\<not> (\<exists>msk. em = Some msk \<and> msk ! i)" and n2: "\<not> (\<exists>msk. smm = Some msk \<and> msk ! i)"
      and s3: "series df3 ''Error_Type'' ! i = v"
      using unmatched_errors_cases[OF l3 lem3 ls3 v] by blast
    have i2: "i < length (rows df2)" using i3 f3(2) by simp
    have i1: "i < length (rows df1)" using i2 f2(2) by simp
    have i0: "i < length (rows ack)" using i1 f1(2) by simp
    have "rows df3 ! i = rows df2 ! i" using f3(6)[OF i2] n2 by blast
    then have s32: "series df3 ''Error_Type'' ! i = series df2 ''Error_Type'' ! i"
      using f3(3) i2 i3 by (intro series_of_unchanged_row) simp_all
    have s21: "series df2 ''Error_Type'' ! i = series df1 ''Error_Type'' ! i"
      using f2(6)[OF i1 et1] n1 by auto
    have s10: "series df1 ''Error_Type'' = series ack ''Error_Type''" using f1(4)[OF et] by simp
    have "series ack ''Error_Type'' ! i = v" using s3 s32 s21 s10 by simp
    then show ?thesis using ty i0 eri ns by blast
  qed
qed

lemma apply_series_nth:
  "apply_series f xs = Inr ys \<Longrightarrow> i < length xs \<Longrightarrow> f (xs ! i) = Inr (ys ! i)"
proof (induction xs arbitrary: ys i)
  case Nil
  then show ?case by simp
next
  case (Cons x xs)
  from Cons.prems(1) obtain y ys' where fx: "f x = Inr y" and r: "apply_series f xs = Inr ys'"
    and ys: "ys = y # ys'"
    by (auto split: sum.splits)
  show ?case
  proof (cases i)
    case 0
    then show ?thesis using fx ys by simp
  next
    case (Suc j)
    then have "j < length xs" using Cons.prems(2) by simp
    from Cons.IH[OF r this] show ?thesis using Suc ys by simp
  qed
qed

lemma add_reason_text_row:
  assumes wf: "wf_frame df" and res: "add_reason_text df = Inr df1" and i: "i < length (rows df)"
  shows "(''Transaction_Reason_Text'' \<in> set (columns df1))
           = (''Transaction_Reason'' \<in> set (columns df) \<or> ''Transaction_Reason_Text'' \<in> set (columns df))"
    and "''Transaction_Reason'' \<in> set (columns df) \<Longrightarrow>
           \<exists>t. get_transaction_reason_text (series df ''Transaction_Reason'' ! i) = Inr t
              \<and> series df1 ''Transaction_Reason_Text'' ! i = Str t"
    and "''Transaction_Reason'' \<notin> set (columns df) \<Longrightarrow> df1 = df"
proof -
  show "(''Transaction_Reason_Text'' \<in> set (columns df1))
           = (''Transaction_Reason'' \<in> set (columns df) \<or> ''Transaction_Reason_Text'' \<in> set (columns df))"
    using add_reason_text_frame(3)[OF wf res] by auto
  show "''Transaction_Reason'' \<notin> set (columns df) \<Longrightarrow> df1 = df"
    using res by (simp add: add_reason_text_def)
  assume tr: "''Transaction_Reason'' \<in> set (columns df)"
  then obtain texts where a: "apply_series get_transaction_reason_text (series df ''Transaction_Reason'') = Inr texts"
    and d: "df1 = setitem df ''Transaction_Reason_Text'' (map Str texts)"
    using res by (auto simp: add_reason_text_def split: sum.splits)
  have l: "length texts = length (rows df)" using apply_series_length[OF a] by simp
  have g: "get_transaction_reason_text (series df ''Transaction_Reason'' ! i) = Inr (texts ! i)"
    using apply_series_nth[OF a] i by simp
  have "series df1 ''Transaction_Reason_Text'' = map Str texts"
    unfolding d using wf l by (subst series_setitem) simp_all
  then have "series df1 ''Transaction_Reason_Text'' ! i = Str (texts ! i)" using i l by simp
  then show "\<exists>t. get_transaction_reason_text (series df ''Transaction_Reason'' ! i) = Inr t
              \<and> series df1 ''Transaction_Reason_Text'' ! i = Str t"
    using g by blast
qed

lemma ack_composite_keys_nth:
  "i < length (rows df) \<Longrightarrow>
   ack_composite_keys df ! i
     = astype_str (series df ''Error_Type'' ! i) @ ''|'' @ astype_str (series df ''Transaction_Reason_Text'' ! i)"
  by (simp add: ack_composite_keys_def)

lemma stage_row_values:
  assumes wf: "wf_frame df" and len: "length er = length (rows df)"
    and et: "''Error_Type'' \<in> set (columns df)"
    and r1: "strategy1 df m er = Inr (df2, em, a1)"
    and r2: "strategy2 df2 m er em = Inr (df3, smm, a2)"
    and i: "i < length (rows df)" and e: "er ! i"
  shows "''Transaction_Reason_Text'' \<in> set (columns df) \<Longrightarrow> ''file_type_2'' \<in> set (columns m) \<Longrightarrow>
         ack_composite_keys df ! i \<in> set (mapping_composite_keys (series m ''Error_Type'') (series m ''file_type_2'')) \<Longrightarrow>
           series df3 ''Error_Type'' ! i
              = series_map (dict_zip (mapping_composite_keys (series m ''Error_Type'') (series m ''file_type_2''))
                              (series m ''Client_Error_Type''))
                  (Str (ack_composite_keys df ! i))
          \<and> (''Client_Action'' \<in> set (columns df) \<longrightarrow>
               series df3 ''Client_Action'' ! i
                 = fillna (series_map (dict_zip (mapping_composite_keys (series m ''Error_Type'') (series m ''file_type_2''))
                              (series m ''Client Action''))
                     (Str (ack_composite_keys df ! i))))"
    and "\<not> (''Transaction_Reason_Text'' \<in> set (columns df) \<and> ''file_type_2'' \<in> set (columns m)
          \<and> ack_composite_keys df ! i \<in> set (mapping_composite_keys (series m ''Error_Type'') (series m ''file_type_2''))) \<Longrightarrow>
         series df3 ''Error_Type'' ! i
           = (if isin (dict_zip (series m ''Error_Type'') (series m ''Client_Error_Type'')) (series df ''Error_Type'' ! i)
              then series_map (dict_zip (series m ''Error_Type'') (series m ''Client_Error_Type'')) (series df ''Error_Type'' ! i)
              else series df ''Error_Type'' ! i)"
proof -
  let ?mkeys = "mapping_composite_keys (series m ''Error_Type'') (series m ''file_type_2'')"
  let ?sem = "dict_zip (series m ''Error_Type'') (series m ''Client_Error_Type'')"
  let ?sam = "dict_zip (series m ''Error_Type'') (series m ''Client Action'')"
  note f2 = strategy1_frame[OF wf len et r1]
  have et2: "''Error_Type'' \<in> set (columns df2)" using et f2(3) by simp
  have l2: "length er = length (rows df2)" using f2(2) len by simp
  have lem: "\<forall>msk. em = Some msk \<longrightarrow> length msk = length (rows df2)" using f2(4) f2(2) by simp
  note f3 = strategy2_frame[OF f2(1) l2 lem et2 r2]
  have i2: "i < length (rows df2)" using i f2(2) by simp
  have i3: "i < length (rows df3)" using i2 f3(2) by simp
  have mask1: "''Transaction_Reason_Text'' \<in> set (columns df) \<Longrightarrow> ''file_type_2'' \<in> set (columns m) \<Longrightarrow>
     \<exists>msk. em = Some msk \<and> msk ! i = (ack_composite_keys df ! i \<in> set ?mkeys)"
  proof -
    assume g: "''Transaction_Reason_Text'' \<in> set (columns df)" "''file_type_2'' \<in> set (columns m)"
    let ?msk = "map (\<lambda>(e, k). e \<and> k \<in> set ?mkeys) (zip er (ack_composite_keys df))"
    have em: "em = Some ?msk" using strategy1_mask[OF wf g r1] .
    have "?msk ! i = (ack_composite_keys df ! i \<in> set ?mkeys)" using i len e by simp
    then show ?thesis using em by blast
  qed
  {
    assume g: "''Transaction_Reason_Text'' \<in> set (columns df)" "''file_type_2'' \<in> set (columns m)"
      and k: "ack_composite_keys df ! i \<in> set ?mkeys"
    obtain msk where em: "em = Some msk" and m: "msk ! i" using mask1[OF g] k by blast
    have no: "\<forall>s. smm = Some s \<longrightarrow> \<not> s ! i"
      using f3(5)[OF _ i2] em m by blast
    have same: "rows df3 ! i = rows df2 ! i" using f3(6)[OF i2] no by simp
    have ser: "\<And>c. series df3 c ! i = series df2 c ! i"
      using same f3(3) i2 i3 by (intro series_of_unchanged_row) simp_all
    note v = strategy1_matched_values[OF wf len et r1[unfolded em] i m]
    show "series df3 ''Error_Type'' ! i
              = series_map (dict_zip ?mkeys (series m ''Client_Error_Type''))
                  (Str (ack_composite_keys df ! i))
          \<and> (''Client_Action'' \<in> set (columns df) \<longrightarrow>
               series df3 ''Client_Action'' ! i
                 = fillna (series_map (dict_zip ?mkeys (series m ''Client Action''))
                     (Str (ack_composite_keys df ! i))))"
      using ser v by simp
  }
  assume n: "\<not> (''Transaction_Reason_Text'' \<in> set (columns df) \<and> ''file_type_2'' \<in> set (columns m)
          \<and> ack_composite_keys df ! i \<in> set ?mkeys)"
  have nom: "\<forall>msk. em = Some msk \<longrightarrow> \<not> msk ! i"
  proof (cases "''Transaction_Reason_Text'' \<in> set (columns df) \<and> ''file_type_2'' \<in> set (columns m)")
    case True
    then obtain msk where "em = Some msk" "msk ! i = (ack_composite_keys df ! i \<in> set ?mkeys)"
      using mask1 by blast
    then show ?thesis using n True by auto
  next
    case False
    then have "em = None" using strategy1_skip[of df m er] r1 by simp
    then show ?thesis by simp
  qed
  have s21: "series df2 ''Error_Type'' ! i = series df ''Error_Type'' ! i"
  proof (rule f2(6)[OF i et])
    show "''Error_Type'' \<noteq> ''composite_key''" by simp
    show "(''Error_Type'' \<noteq> ''Error_Type'' \<and> ''Error_Type'' \<noteq> ''Client_Action'') \<or> (\<forall>msk. em = Some msk \<longrightarrow> \<not> msk ! i)"
      using nom by blast
  qed
  let ?rem = "remaining_errors_of er em"
  have lrem: "length ?rem = length (rows df2)" using length_remaining_errors_of[OF l2 lem] .
  have remi: "?rem ! i" using remaining_errors_of_nth[OF l2 lem i2] e nom by simp
  have "i < length ?rem" using lrem i2 by simp
  then have anyr: "any_true ?rem" unfolding any_true_iff using remi by blast
  let ?msk2 = "map (\<lambda>(r, v). r \<and> isin ?sem v) (zip ?rem (series df2 ''Error_Type''))"
  note run = strategy2_run[OF anyr r2]
  have lm2: "length ?msk2 = length (rows df2)" using lrem by simp
  have m2i: "?msk2 ! i = isin ?sem (series df ''Error_Type'' ! i)"
    using i2 lrem remi s21 by simp
  show "series df3 ''Error_Type'' ! i
           = (if isin ?sem (series df ''Error_Type'' ! i)
              then series_map ?sem (series df ''Error_Type'' ! i)
              else series df ''Error_Type'' ! i)"
  proof (cases "isin ?sem (series df ''Error_Type'' ! i)")
    case True
    then have mi: "?msk2 ! i" using m2i by simp
    have "i < length ?msk2" using lm2 i2 by simp
    then have "any_true ?msk2" unfolding any_true_iff using mi by blast
    then have d3: "df3 = update_matched df2 ?msk2 ''Error_Type'' ?sem ?sam" using run(2) by simp
    have "series df3 ''Error_Type'' ! i = series_map ?sem (series df2 ''Error_Type'' ! i)"
      unfolding d3 by (rule update_matched_frame(5)[OF f2(1) lm2 et2 i2 mi])
    then show ?thesis using True s21 by simp
  next
    case False
    then have "\<forall>msk. smm = Some msk \<longrightarrow> \<not> msk ! i" using run(1) m2i by simp
    then have "rows df3 ! i = rows df2 ! i" using f3(6)[OF i2] by simp
    then have "series df3 ''Error_Type'' ! i = series df2 ''Error_Type'' ! i"
      using f3(3) i2 i3 by (intro series_of_unchanged_row) simp_all
    then show ?thesis using False s21 by simp
  qed
qed

lemma engine_runs_stages:
  assumes et: "''Error_Type'' \<in> set (columns ack)" and ie: "''isError'' \<in> set (columns ack)"
    and a: "any_true (error_rows_of ack)"
    and ok: "\<forall>e. snd (apply_error_mapping ack m) \<noteq> Failed e"
  shows "\<exists>df1 df2 em a1 df3 smm a2 rep.
        add_reason_text ack = Inr df1 \<and>
        strategy1 df1 m (error_rows_of ack) = Inr (df2, em, a1) \<and>
        strategy2 df2 m (error_rows_of ack) em = Inr (df3, smm, a2) \<and>
        finish_mapping df3 (error_rows_of ack) em smm (a1 + a2) = Inr (fst (apply_error_mapping ack m), rep)"
proof (cases "apply_error_mapping_try ack m")
  case (Inl e)
  then have "snd (apply_error_mapping ack m) = Failed e" by (simp add: apply_error_mapping_def)
  then show ?thesis using ok by blast
next
  case (Inr res)
  obtain out rep where res: "res = (out, rep)" by (cases res)
  have o: "fst (apply_error_mapping ack m) = out" using Inr res by (simp add: apply_error_mapping_def)
  show ?thesis using Inr et ie a unfolding o res
    by (auto simp: apply_error_mapping_try_def Let_def split: if_splits sum.splits prod.splits)
qed

lemma engine_out_series:
  assumes wf3: "wf_frame df3" and c: "c \<in> set (columns df3)"
    and ne: "c \<noteq> ''composite_key''" "c \<noteq> ''Transaction_Reason_Text''"
    and out: "out = drop_columns (drop_columns df3 [''composite_key'']) [''Transaction_Reason_Text'']"
  shows "series out c = series df3 c"
proof -
  let ?d1 = "drop_columns df3 [''composite_key'']"
  have wfd1: "wf_frame ?d1" using wf3 by (rule wf_drop_columns)
  have "c \<in> set (columns ?d1)" using c ne by (simp add: columns_drop_columns)
  then have "series out c = series ?d1 c" unfolding out using wfd1 ne by (intro series_drop_columns) simp_all
  also have "\<dots> = series df3 c" using wf3 c ne by (intro series_drop_columns) simp_all
  finally show ?thesis .
qed

subsection \<open>Steps of the Record Transform Pipeline\<close>

lemma handle_source_filename_frame:
  assumes "wf_frame df"
  shows "series (handle_source_filename s df) ''Source_Filename''
           = replicate (length (rows df)) (Str (if s \<noteq> '''' then s @ ''.csv'' else ''''))
     \<and> length (rows (handle_source_filename s df)) = length (rows df)
     \<and> (\<forall>c \<in> set (columns df). c \<noteq> ''Source_Filename'' \<longrightarrow>
           series (handle_source_filename s df) c = series df c)
     \<and> filter (\<lambda>c. c \<noteq> ''Source_Filename'') (columns (handle_source_filename s df))
           = filter (\<lambda>c. c \<noteq> ''Source_Filename'') (columns df)
     \<and> (if ''Source_Filename'' \<in> set (columns df) then columns (handle_source_filename s df) = columns df
         else if ''Original_Contract_Number'' \<in> set (columns df)
         then index_of ''Source_Filename'' (columns (handle_source_filename s df))
                = Suc (index_of ''Original_Contract_Number'' (columns (handle_source_filename s df)))
         else columns (handle_source_filename s df) = columns df @ [''Source_Filename''])"
proof -
  let ?SF = "''Source_Filename''" and ?OCN = "''Original_Contract_Number''"
  let ?v = "Str (desired_source_filename s)"
  have v: "?v = Str (if s \<noteq> '''' then s @ ''.csv'' else '''')" by (simp add: desired_source_filename_def)
  consider (exists) "?SF \<in> set (columns df)"
    | (after) "?SF \<notin> set (columns df)" "?OCN \<in> set (columns df)"
    | (last) "?SF \<notin> set (columns df)" "?OCN \<notin> set (columns df)" by blast
  then show ?thesis
  proof cases
    case exists
    then have h: "handle_source_filename s df = setitem_scalar df ?SF ?v"
      by (simp add: handle_source_filename_def Let_def)
    show ?thesis unfolding h using exists assms
      by (simp add: series_setitem_scalar columns_setitem_scalar v)
  next
    case after
    let ?k = "index_of ?OCN (columns df)"
    have h: "handle_source_filename s df = insert_col df (Suc ?k) ?SF ?v"
      using after by (simp add: handle_source_filename_def Let_def get_loc_def)
    have k: "Suc ?k \<le> length (columns df)" using index_of_less[OF after(2)] by simp
    have f: "filter (\<lambda>c. c \<noteq> ?SF) (take (Suc ?k) (columns df) @ ?SF # drop (Suc ?k) (columns df))
        = filter (\<lambda>c. c \<noteq> ?SF) (columns df)"
      by (rule filter_insert_skip) simp
    have pos: "index_of ?SF (take (Suc ?k) (columns df) @ ?SF # drop (Suc ?k) (columns df)) = Suc ?k"
      using after(1) k by (rule index_of_insert_new)
    have pos2: "index_of ?OCN (take (Suc ?k) (columns df) @ ?SF # drop (Suc ?k) (columns df)) = ?k"
      using index_of_insert_old[OF wf_frame_distinct[OF assms] after(2), of ?SF "Suc ?k"] by simp
    have c1: "series (insert_col df (Suc ?k) ?SF ?v) ?SF = replicate (length (rows df)) ?v"
      using series_insert_col[OF assms after(1) k, of ?SF ?v] by simp
    have c3: "\<forall>c \<in> set (columns df). c \<noteq> ?SF \<longrightarrow> series (insert_col df (Suc ?k) ?SF ?v) c = series df c"
      using series_insert_col[OF assms after(1) k, of _ ?v] by simp
    show ?thesis unfolding h using after c1 c3 f pos pos2
      by (simp only: columns_insert_col length_rows_insert_col v if_False if_True simp_thms)
  next
    case last
    then have h: "handle_source_filename s df = setitem_scalar df ?SF ?v"
      by (simp add: handle_source_filename_def Let_def)
    show ?thesis unfolding h using last assms
      by (simp add: series_setitem_scalar columns_setitem_scalar v)
  qed
qed

lemma frame_stepI:
  assumes "wf_frame df'" "length (rows df') = length (rows df)"
    "filter P (columns df') = filter P (columns df)"
    "\<And>c. c \<in> set (columns df) \<Longrightarrow> V c \<Longrightarrow> c \<in> set (columns df') \<and> series df' c = series df c"
  shows "frame_step P V df df'"
  using assms by (simp add: frame_step_def)

lemma frame_stepI2:
  assumes "wf_frame df'" "length (rows df') = length (rows df)"
    and o: "filter P (columns df') = filter P (columns df)"
    and vp: "\<And>c. V c \<Longrightarrow> P c"
    and s: "\<And>c. c \<in> set (columns df) \<Longrightarrow> V c \<Longrightarrow> series df' c = series df c"
  shows "frame_step P V df df'"
proof (rule frame_stepI)
  fix c assume c: "c \<in> set (columns df)" and v: "V c"
  have "c \<in> set (filter P (columns df'))" unfolding o using c vp[OF v] by simp
  then show "c \<in> set (columns df') \<and> series df' c = series df c" using s[OF c v] by simp
qed (use assms in simp_all)

lemma frame_step_refl: "wf_frame df \<Longrightarrow> frame_step P V df df"
  by (simp add: frame_step_def)

lemma filter_weaken:
  assumes "filter P xs = filter P ys" and "\<And>x. Q x \<Longrightarrow> P x"
  shows "filter Q xs = filter Q ys"
proof -
  have "\<And>zs. filter Q (filter P zs) = filter Q zs"
    using assms(2) by (auto intro: filter_cong)
  then show ?thesis using assms(1) by metis
qed

lemma frame_step_weaken:
  assumes "frame_step P V df df'" and "\<And>c. P' c \<Longrightarrow> P c" and "\<And>c. V' c \<Longrightarrow> V c"
  shows "frame_step P' V' df df'"
proof -
  have "filter P (columns df') = filter P (columns df)" using assms(1) by (simp add: frame_step_def)
  then have "filter P' (columns df') = filter P' (columns df)" using assms(2) by (rule filter_weaken)
  then show ?thesis using assms(1,3) by (simp add: frame_step_def)
qed

lemma frame_step_trans:
  assumes "frame_step P V a b" and "frame_step P V b c"
  shows "frame_step P V a c"
  using assms by (simp add: frame_step_def)

lemma frame_step_wf: "frame_step P V df df' \<Longrightarrow> wf_frame df'"
  by (simp add: frame_step_def)

lemma frame_step_rows: "frame_step P V df df' \<Longrightarrow> length (rows df') = length (rows df)"
  by (simp add: frame_step_def)

lemma drop_general_step:
  assumes wf: "wf_frame df"
  shows "frame_step (\<lambda>c. c \<notin> set columns_to_drop_general) (\<lambda>c. c \<notin> set columns_to_drop_general)
           df (drop_general df)"
proof -
  let ?ex = "filter (\<lambda>col. col \<in> set (columns df)) columns_to_drop_general"
  let ?d = "drop_columns df ?ex"
  have "frame_step (\<lambda>c. c \<notin> set columns_to_drop_general) (\<lambda>c. c \<notin> set columns_to_drop_general) df ?d"
  proof (rule frame_stepI)
    show "wf_frame ?d" using wf by (rule wf_drop_columns)
    show "length (rows ?d) = length (rows df)" by simp
    show "filter (\<lambda>c. c \<notin> set columns_to_drop_general) (columns ?d)
        = filter (\<lambda>c. c \<notin> set columns_to_drop_general) (columns df)"
      by (auto simp: columns_drop_columns intro: filter_cong)
    fix c assume c: "c \<in> set (columns df)" and n: "c \<notin> set columns_to_drop_general"
    then have "c \<notin> set ?ex" by simp
    then show "c \<in> set (columns ?d) \<and> series ?d c = series df c"
      using c wf by (simp add: columns_drop_columns series_drop_columns)
  qed
  then show ?thesis using wf by (simp add: drop_general_def Let_def frame_step_refl)
qed

lemma wf_handle_source_filename:
  "wf_frame df \<Longrightarrow> wf_frame (handle_source_filename s df)"
  by (simp add: handle_source_filename_def Let_def wf_insert_col wf_setitem_scalar)

lemma handle_source_filename_step:
  assumes wf: "wf_frame df"
  shows "frame_step (\<lambda>c. c \<noteq> ''Source_Filename'') (\<lambda>c. c \<noteq> ''Source_Filename'')
           df (handle_source_filename s df)"
proof (rule frame_stepI)
  note f = handle_source_filename_frame[OF wf, of s]
  show "wf_frame (handle_source_filename s df)" using wf by (rule wf_handle_source_filename)
  show "length (rows (handle_source_filename s df)) = length (rows df)" using f by blast
  show o: "filter (\<lambda>c. c \<noteq> ''Source_Filename'') (columns (handle_source_filename s df))
      = filter (\<lambda>c. c \<noteq> ''Source_Filename'') (columns df)" using f by blast
  fix c assume c: "c \<in> set (columns df)" and n: "c \<noteq> ''Source_Filename''"
  have "c \<in> set (filter (\<lambda>c. c \<noteq> ''Source_Filename'') (columns (handle_source_filename s df)))"
    unfolding o using c n by simp
  then have "c \<in> set (columns (handle_source_filename s df))" by simp
  moreover have "series (handle_source_filename s df) c = series df c" using f c n by blast
  ultimately show "c \<in> set (columns (handle_source_filename s df)) \<and> series (handle_source_filename s df) c = series df c"
    by simp
qed

lemma handle_client_action_step:
  assumes wf: "wf_frame df"
  shows "frame_step (\<lambda>c. c \<noteq> ''Client_Action'') (\<lambda>c. c \<noteq> ''Client_Action'')
           df (handle_client_action df)"
proof -
  let ?CA = "''Client_Action''" and ?EM = "''Error_Message''"
  consider (exists) "?CA \<in> set (columns df)"
    | (after) "?CA \<notin> set (columns df)" "?EM \<in> set (columns df)"
    | (last) "?CA \<notin> set (columns df)" "?EM \<notin> set (columns df)" by blast
  then show ?thesis
  proof cases
    case exists
    then show ?thesis using wf by (simp add: handle_client_action_def frame_step_refl)
  next
    case after
    let ?k = "Suc (index_of ?EM (columns df))"
    have h: "handle_client_action df = insert_col df ?k ?CA (Str '''')"
      using after by (simp add: handle_client_action_def get_loc_def)
    have k: "?k \<le> length (columns df)" using index_of_less[OF after(2)] by simp
    show ?thesis unfolding h
    proof (rule frame_stepI2)
      show "wf_frame (insert_col df ?k ?CA (Str ''''))" using wf after(1) by (rule wf_insert_col)
      show "length (rows (insert_col df ?k ?CA (Str ''''))) = length (rows df)" by simp
      show "filter (\<lambda>c. c \<noteq> ?CA) (columns (insert_col df ?k ?CA (Str ''''))) = filter (\<lambda>c. c \<noteq> ?CA) (columns df)"
        unfolding columns_insert_col by (rule filter_insert_skip) simp
      show "\<And>c. c \<noteq> ?CA \<Longrightarrow> c \<noteq> ?CA" by simp
      fix c assume c: "c \<in> set (columns df)" and n: "c \<noteq> ?CA"
      show "series (insert_col df ?k ?CA (Str '''')) c = series df c"
        using series_insert_col[OF wf after(1) k, of c "Str ''''"] c n by simp
    qed
  next
    case last
    have h: "handle_client_action df = setitem_scalar df ?CA (Str '''')"
      using last by (simp add: handle_client_action_def)
    show ?thesis unfolding h
    proof (rule frame_stepI)
      show "wf_frame (setitem_scalar df ?CA (Str ''''))" using wf by (rule wf_setitem_scalar)
      show "length (rows (setitem_scalar df ?CA (Str ''''))) = length (rows df)" by simp
      show "filter (\<lambda>c. c \<noteq> ?CA) (columns (setitem_scalar df ?CA (Str ''''))) = filter (\<lambda>c. c \<noteq> ?CA) (columns df)"
        using last by (simp add: columns_setitem_scalar)
      fix c assume c: "c \<in> set (columns df)" and n: "c \<noteq> ?CA"
      show "c \<in> set (columns (setitem_scalar df ?CA (Str ''''))) \<and> series (setitem_scalar df ?CA (Str '''')) c = series df c"
        using series_setitem_scalar[OF wf, of c ?CA "Str ''''"] c n by (simp add: columns_setitem_scalar)
    qed
  qed
qed

lemma engine_step:
  assumes wf: "wf_frame ack"
  shows "frame_step (\<lambda>c. c \<noteq> ''composite_key'' \<and> c \<noteq> ''Transaction_Reason_Text'')
           (\<lambda>c. c \<noteq> ''composite_key'' \<and> c \<noteq> ''Transaction_Reason_Text'' \<and> c \<noteq> ''Error_Type'' \<and> c \<noteq> ''Client_Action'')
           ack (fst (apply_error_mapping ack m))"
proof (rule frame_stepI)
  let ?out = "fst (apply_error_mapping ack m)"
  let ?P = "\<lambda>c. c \<noteq> ''composite_key'' \<and> c \<noteq> ''Transaction_Reason_Text''"
  note f = engine_frame[OF wf, where m=m]
  show "wf_frame ?out" by (rule f(1))
  show n: "length (rows ?out) = length (rows ack)" by (rule f(2))
  show o: "filter ?P (columns ?out) = filter ?P (columns ack)"
    using f(3) by auto
  fix c assume c: "c \<in> set (columns ack)"
    and v: "c \<noteq> ''composite_key'' \<and> c \<noteq> ''Transaction_Reason_Text'' \<and> c \<noteq> ''Error_Type'' \<and> c \<noteq> ''Client_Action''"
  have "c \<in> set (filter ?P (columns ?out))" unfolding o using c v by simp
  then have co: "c \<in> set (columns ?out)" by simp
  have "series ?out c = series ack c"
  proof (rule nth_equalityI)
    show "length (series ?out c) = length (series ack c)" using n by simp
    fix i assume "i < length (series ?out c)"
    then have "i < length (rows ack)" using n by simp
    then show "series ?out c ! i = series ack c ! i" using f(4)[OF _ co] v by simp
  qed
  then show "c \<in> set (columns ?out) \<and> series ?out c = series ack c" using co by simp
qed

lemma pii_fold_step:
  "wf_frame df \<Longrightarrow> set cs \<subseteq> set (columns df) \<Longrightarrow>
   frame_step (\<lambda>c. True) (\<lambda>c. c \<notin> set cs) df (fold (\<lambda>col d. setitem_scalar d col v) cs df)"
proof (induction cs arbitrary: df)
  case Nil
  then show ?case by (simp add: frame_step_refl)
next
  case (Cons a cs)
  let ?d = "setitem_scalar df a v"
  have a: "a \<in> set (columns df)" using Cons.prems by simp
  have c: "columns ?d = columns df" using a by (simp add: columns_setitem_scalar)
  have s1: "frame_step (\<lambda>c. True) (\<lambda>c. c \<noteq> a) df ?d"
  proof (rule frame_stepI)
    show "wf_frame ?d" using Cons.prems(1) by (rule wf_setitem_scalar)
    show "length (rows ?d) = length (rows df)" by simp
    show "filter (\<lambda>c. True) (columns ?d) = filter (\<lambda>c. True) (columns df)" using c by simp
    fix c' assume "c' \<in> set (columns df)" "c' \<noteq> a"
    then show "c' \<in> set (columns ?d) \<and> series ?d c' = series df c'"
      using series_setitem_scalar[OF Cons.prems(1), of c' a v] c by simp
  qed
  have s2: "frame_step (\<lambda>c. True) (\<lambda>c. c \<notin> set cs) ?d (fold (\<lambda>col d. setitem_scalar d col v) cs ?d)"
    using Cons.IH[of ?d] Cons.prems c frame_step_wf[OF s1] by simp
  have "frame_step (\<lambda>c. True) (\<lambda>c. c \<notin> set (a # cs)) df (fold (\<lambda>col d. setitem_scalar d col v) cs ?d)"
    by (rule frame_step_trans[OF frame_step_weaken[OF s1] frame_step_weaken[OF s2]]) simp_all
  then show ?case by simp
qed

lemma remove_customer_pii_step:
  assumes wf: "wf_frame df"
  shows "frame_step (\<lambda>c. True) (\<lambda>c. c \<notin> set pii_columns_customer) df (remove_customer_pii df)"
proof -
  let ?ex = "filter (\<lambda>col. col \<in> set (columns df)) pii_columns_customer"
  have "frame_step (\<lambda>c. True) (\<lambda>c. c \<notin> set ?ex) df (remove_customer_pii df)"
    unfolding remove_customer_pii_def Let_def using wf by (intro pii_fold_step) auto
  then show ?thesis by (rule frame_step_weaken) simp_all
qed

lemma length_rows_map_column [simp]: "length (rows (map_column f c df)) = length (rows df)"
  by (simp add: map_column_def)

lemma wf_map_column: "wf_frame df \<Longrightarrow> wf_frame (map_column f c df)"
  by (auto simp: wf_frame_def list_all_iff map_column_def)

lemma series_map_column_other:
  assumes "c' \<in> set (columns df)" "c' \<noteq> c"
  shows "series (map_column f c df) c' = series df c'"
  using assms by (simp add: series_def map_column_def get_loc_def index_of_neq')

lemma clear_cosign_pii_step:
  assumes wf: "wf_frame df" and len: "length msk = length (rows df)"
  shows "frame_step (\<lambda>c. True) (\<lambda>c. c \<noteq> col) df (clear_cosign_pii msk col df)"
proof (cases "col \<in> set (columns df)")
  case False
  then show ?thesis using wf by (simp add: clear_cosign_pii_def frame_step_refl)
next
  case True
  let ?d1 = "map_column (\<lambda>v. Str (astype_str v)) col df"
  let ?vs = "replicate (length (rows ?d1)) (Str '''')"
  let ?d2 = "loc_set ?d1 msk col ?vs"
  have h: "clear_cosign_pii msk col df = ?d2" using True by (simp add: clear_cosign_pii_def Let_def)
  have wf1: "wf_frame ?d1" using wf by (rule wf_map_column)
  have l1: "length msk = length (rows ?d1)" using len by simp
  have l2: "length ?vs = length (rows ?d1)" by simp
  have c1: "col \<in> set (columns ?d1)" using True by simp
  show ?thesis unfolding h
  proof (rule frame_stepI2)
    show "wf_frame ?d2" using wf1 l1 l2 by (rule wf_loc_set)
    show n: "length (rows ?d2) = length (rows df)" using length_rows_loc_set[OF l1 l2] by simp
    show "filter (\<lambda>c. True) (columns ?d2) = filter (\<lambda>c. True) (columns df)" by simp
    show "\<And>c. c \<noteq> col \<Longrightarrow> True" by simp
    fix c assume c: "c \<in> set (columns df)" and ne: "c \<noteq> col"
    have cc: "c \<in> set (columns ?d1)" using c by simp
    have "series ?d2 c = series ?d1 c"
    proof (rule nth_equalityI)
      show "length (series ?d2 c) = length (series ?d1 c)" using n by simp
      fix i assume "i < length (series ?d2 c)"
      then have i: "i < length (rows ?d1)" using n by simp
      show "series ?d2 c ! i = series ?d1 c ! i"
        using series_loc_set_nth[OF wf1 l1 l2 c1 cc i] ne by simp
    qed
    then show "series ?d2 c = series df c" using series_map_column_other[OF c ne] by simp
  qed
qed

lemma cosign_fold_step:
  "wf_frame df \<Longrightarrow> length msk = length (rows df) \<Longrightarrow>
   frame_step (\<lambda>c. True) (\<lambda>c. c \<notin> set cs) df (fold (clear_cosign_pii msk) cs df)"
proof (induction cs arbitrary: df)
  case Nil
  then show ?case by (simp add: frame_step_refl)
next
  case (Cons a cs)
  let ?d = "clear_cosign_pii msk a df"
  have s1: "frame_step (\<lambda>c. True) (\<lambda>c. c \<noteq> a) df ?d" using Cons.prems by (rule clear_cosign_pii_step)
  have s2: "frame_step (\<lambda>c. True) (\<lambda>c. c \<notin> set cs) ?d (fold (clear_cosign_pii msk) cs ?d)"
    using Cons.IH[of ?d] frame_step_wf[OF s1] frame_step_rows[OF s1] Cons.prems(2) by simp
  have "frame_step (\<lambda>c. True) (\<lambda>c. c \<notin> set (a # cs)) df (fold (clear_cosign_pii msk) cs ?d)"
    by (rule frame_step_trans[OF frame_step_weaken[OF s1] frame_step_weaken[OF s2]]) simp_all
  then show ?case by simp
qed

lemma move_before:
  assumes d: "distinct xs" and x: "x \<in> set xs"
  shows "distinct (list_insert i x (list_pop (index_of x xs) xs))"
    and "set (list_insert i x (list_pop (index_of x xs) xs)) = set xs"
    and "filter (\<lambda>c. c \<noteq> x) (list_insert i x (list_pop (index_of x xs) xs)) = filter (\<lambda>c. c \<noteq> x) xs"
proof -
  let ?s = "index_of x xs"
  let ?pop = "take ?s xs @ drop (Suc ?s) xs"
  have s: "?s < length xs" using x by (rule index_of_less)
  have xs: "xs = take ?s xs @ x # drop (Suc ?s) xs"
    using id_take_nth_drop[OF s] nth_index_of[OF x] by simp
  have dd: "distinct (take ?s xs @ x # drop (Suc ?s) xs)" using d xs by simp
  have dp: "distinct ?pop" and xp: "x \<notin> set ?pop" using dd by auto
  have sp: "set xs = insert x (set ?pop)"
  proof -
    have "set xs = set (take ?s xs @ x # drop (Suc ?s) xs)" using xs by simp
    then show ?thesis by auto
  qed
  have fp: "filter (\<lambda>c. c \<noteq> x) xs = filter (\<lambda>c. c \<noteq> x) ?pop"
  proof -
    have "filter (\<lambda>c. c \<noteq> x) xs = filter (\<lambda>c. c \<noteq> x) (take ?s xs @ x # drop (Suc ?s) xs)"
      using xs by simp
    then show ?thesis by simp
  qed
  have ins: "list_insert i x (list_pop ?s xs) = take i ?pop @ x # drop i ?pop"
    by (simp only: list_insert_def list_pop_def)
  show "distinct (list_insert i x (list_pop ?s xs))"
    unfolding ins using dp xp by (rule distinct_insert)
  show "set (list_insert i x (list_pop ?s xs)) = set xs"
  proof -
    have "set (take i ?pop @ x # drop i ?pop) = insert x (set (take i ?pop @ drop i ?pop))" by simp
    also have "\<dots> = insert x (set ?pop)" by (simp only: append_take_drop_id)
    finally show ?thesis unfolding ins using sp by simp
  qed
  show "filter (\<lambda>c. c \<noteq> x) (list_insert i x (list_pop ?s xs)) = filter (\<lambda>c. c \<noteq> x) xs"
    unfolding ins fp by (rule filter_insert_skip) simp
qed

lemma select_columns_step:
  assumes wf: "wf_frame df" and d: "distinct cs" and s: "set cs = set (columns df)"
    and f: "filter P cs = filter P (columns df)"
  shows "frame_step P (\<lambda>c. True) df (select_columns df cs)"
proof (rule frame_stepI)
  show "wf_frame (select_columns df cs)"
    using d by (simp add: wf_frame_def list_all_iff select_columns_def)
  show "length (rows (select_columns df cs)) = length (rows df)" by (simp add: select_columns_def)
  show "filter P (columns (select_columns df cs)) = filter P (columns df)"
    using f by (simp add: select_columns_def)
  fix c assume c: "c \<in> set (columns df)"
  then have cs: "c \<in> set cs" using s by simp
  have ix: "index_of c cs < length cs" using cs by (rule index_of_less)
  have "series (select_columns df cs) c = series df c"
    using ix nth_index_of[OF cs] by (simp add: series_def select_columns_def get_loc_def)
  then show "c \<in> set (columns (select_columns df cs)) \<and> series (select_columns df cs) c = series df c"
    using cs by (simp add: select_columns_def)
qed

lemma cosign_processing_step:
  assumes wf: "wf_frame df"
  shows "frame_step (\<lambda>c. c \<noteq> ''Source_Filename'') (\<lambda>c. c \<notin> set COSIGN_PII_COLUMNS) df (cosign_processing df)"
proof -
  let ?SF = "''Source_Filename''" and ?ICF = "''incoming_client_filename''"
  let ?msk = "map (\<lambda>v. str_upper (astype_str v) = ''COSIGN'') (series df ''Agent_Number'')"
  let ?d1 = "fold (clear_cosign_pii ?msk) COSIGN_PII_COLUMNS df"
  let ?cs = "list_insert (get_loc ?d1 ?ICF) (columns ?d1 ! get_loc ?d1 ?SF) (list_pop (get_loc ?d1 ?SF) (columns ?d1))"
  have lm: "length ?msk = length (rows df)" by simp
  have s1: "frame_step (\<lambda>c. True) (\<lambda>c. c \<notin> set COSIGN_PII_COLUMNS) df ?d1"
    using wf lm by (rule cosign_fold_step)
  have s1': "frame_step (\<lambda>c. c \<noteq> ?SF) (\<lambda>c. c \<notin> set COSIGN_PII_COLUMNS) df ?d1"
    using s1 by (rule frame_step_weaken) simp_all
  have wf1: "wf_frame ?d1" using s1 by (rule frame_step_wf)
  have s2: "?SF \<in> set (columns ?d1) \<Longrightarrow> frame_step (\<lambda>c. c \<noteq> ?SF) (\<lambda>c. c \<notin> set COSIGN_PII_COLUMNS) ?d1 (select_columns ?d1 ?cs)"
  proof -
    assume sf: "?SF \<in> set (columns ?d1)"
    have e: "columns ?d1 ! get_loc ?d1 ?SF = ?SF" using nth_index_of[OF sf] by (simp add: get_loc_def)
    note mb = move_before[OF wf_frame_distinct[OF wf1] sf, of "get_loc ?d1 ?ICF"]
    have "frame_step (\<lambda>c. c \<noteq> ?SF) (\<lambda>c. True) ?d1 (select_columns ?d1 ?cs)"
      unfolding e using wf1 mb unfolding get_loc_def by (intro select_columns_step)
    then show ?thesis by (rule frame_step_weaken) simp_all
  qed
  have "cosign_processing df = df \<or> cosign_processing df = ?d1
      \<or> (?SF \<in> set (columns ?d1) \<and> cosign_processing df = select_columns ?d1 ?cs)"
    by (simp add: cosign_processing_def Let_def)
  then show ?thesis
    using frame_step_refl[OF wf] s1' frame_step_trans[OF s1' s2] by auto
qed

lemma normalize_output_frame:
  assumes wf: "wf_frame df" and c: "c \<in> set (columns df)"
  shows "series (normalize_output df) c = map (\<lambda>v. Str (re_sub_nan (astype_str v))) (series df c)"
proof -
  have "\<And>r. r \<in> set (rows df) \<Longrightarrow> index_of c (columns df) < length r"
    using wf c by (simp add: wf_frame_row index_of_less)
  then show ?thesis by (simp add: series_def normalize_output_def get_loc_def)
qed

lemma pipeline_steps_before:
  assumes wf: "wf_frame df"
    and P: "\<And>c. P c \<Longrightarrow> c \<notin> set columns_to_drop_general \<and> c \<noteq> ''Source_Filename''"
    and V: "\<And>c. V c \<Longrightarrow> c \<notin> set columns_to_drop_general \<and> c \<noteq> ''Source_Filename''
              \<and> c \<notin> set COSIGN_PII_COLUMNS"
  shows "frame_step P V df (cosign_processing (handle_source_filename s (drop_general df)))"
proof -
  let ?d1 = "drop_general df"
  let ?d2 = "handle_source_filename s ?d1"
  let ?d3 = "cosign_processing ?d2"
  have s1: "frame_step P V df ?d1"
    by (rule frame_step_weaken[OF drop_general_step[OF wf]]) (use P V in auto)
  have wf1: "wf_frame ?d1" using s1 by (rule frame_step_wf)
  have s2: "frame_step P V ?d1 ?d2"
    by (rule frame_step_weaken[OF handle_source_filename_step[OF wf1]]) (use P V in auto)
  have wf2: "wf_frame ?d2" using s2 by (rule frame_step_wf)
  have s3: "frame_step P V ?d2 ?d3"
    by (rule frame_step_weaken[OF cosign_processing_step[OF wf2]]) (use P V in auto)
  show ?thesis using s1 s2 s3 by (blast intro: frame_step_trans)
qed

lemma pipeline_steps:
  assumes wf: "wf_frame df"
    and P: "\<And>c. P c \<Longrightarrow> c \<notin> set columns_to_drop_general \<and> c \<noteq> ''Source_Filename''
              \<and> c \<noteq> ''composite_key'' \<and> c \<noteq> ''Transaction_Reason_Text''"
    and V: "\<And>c. V c \<Longrightarrow> c \<notin> set columns_to_drop_general \<and> c \<noteq> ''Source_Filename''
              \<and> c \<notin> set COSIGN_PII_COLUMNS
              \<and> c \<noteq> ''composite_key'' \<and> c \<noteq> ''Transaction_Reason_Text''
              \<and> c \<noteq> ''Error_Type'' \<and> c \<noteq> ''Client_Action'' \<and> c \<notin> set pii_columns_customer"
    and ca: "frame_step P V (cosign_processing (handle_source_filename s (drop_general df)))
               (handle_client_action (cosign_processing (handle_source_filename s (drop_general df))))"
  shows "frame_step P V df
     (let df4 = handle_client_action (cosign_processing (handle_source_filename s (drop_general df)));
          df5 = (case mopt of None \<Rightarrow> df4 | Some mapping_df \<Rightarrow> fst (apply_error_mapping df4 mapping_df))
      in if remove_pii then remove_customer_pii df5 else df5)"
proof -
  let ?d3 = "cosign_processing (handle_source_filename s (drop_general df))"
  let ?d4 = "handle_client_action ?d3"
  let ?d5 = "(case mopt of None \<Rightarrow> ?d4 | Some mapping_df \<Rightarrow> fst (apply_error_mapping ?d4 mapping_df))"
  let ?d6 = "if remove_pii then remove_customer_pii ?d5 else ?d5"
  have s3: "frame_step P V df ?d3"
    by (rule pipeline_steps_before[OF wf]) (use P V in auto)
  have wf4: "wf_frame ?d4" using ca by (rule frame_step_wf)
  have s5: "frame_step P V ?d4 ?d5"
  proof (cases mopt)
    case None
    then show ?thesis using wf4 by (simp add: frame_step_refl)
  next
    case (Some m)
    have "frame_step P V ?d4 (fst (apply_error_mapping ?d4 m))"
      by (rule frame_step_weaken[OF engine_step[OF wf4]]) (use P V in auto)
    then show ?thesis using Some by simp
  qed
  have wf5: "wf_frame ?d5" using s5 by (rule frame_step_wf)
  have s6: "frame_step P V ?d5 ?d6"
  proof (cases remove_pii)
    case False
    then show ?thesis using wf5 by (simp add: frame_step_refl)
  next
    case True
    have "frame_step P V ?d5 (remove_customer_pii ?d5)"
      by (rule frame_step_weaken[OF remove_customer_pii_step[OF wf5]]) (use V in auto)
    then show ?thesis using True by simp
  qed
  have "frame_step P V df ?d6"
    using s3 ca s5 s6 by (blast intro: frame_step_trans)
  then show ?thesis by (simp add: Let_def)
qed

lemma process_csv_file_Inr:
  assumes "process_csv_file df s remove_pii mopt = Inr out"
  shows "out = normalize_output
     (let df4 = handle_client_action (cosign_processing (handle_source_filename s (drop_general df)));
          df5 = (case mopt of None \<Rightarrow> df4 | Some mapping_df \<Rightarrow> fst (apply_error_mapping df4 mapping_df))
      in if remove_pii then remove_customer_pii df5 else df5)"
  using assms by (auto simp: process_csv_file_def Let_def split: if_splits)

lemma index_of_filter_less:
  "P a \<Longrightarrow> P b \<Longrightarrow> a \<in> set xs \<Longrightarrow> b \<in> set xs \<Longrightarrow>
   (index_of a (filter P xs) < index_of b (filter P xs)) = (index_of a xs < index_of b xs)"
proof (induction xs)
  case Nil
  then show ?case by simp
next
  case (Cons x xs)
  show ?case
  proof (cases "x = a \<or> x = b")
    case True
    then show ?thesis using Cons.prems by auto
  next
    case False
    then have "a \<in> set xs" "b \<in> set xs" using Cons.prems by auto
    from Cons.IH[OF Cons.prems(1,2) this] show ?thesis using False by auto
  qed
qed

lemma adjacent_index:
  "distinct xs \<Longrightarrow> xs = pre @ a # b # post \<Longrightarrow> index_of b xs = Suc (index_of a xs)"
  by (auto simp: index_of_append)

lemma adjacent_filter:
  "xs = pre @ a # b # post \<Longrightarrow> P a \<Longrightarrow> P b \<Longrightarrow>
   \<exists>pre' post'. filter P xs = pre' @ a # b # post'"
  by auto

lemma adjacent_insert:
  assumes "xs = pre @ a # b # post" and "n \<noteq> Suc (length pre)"
  shows "\<exists>pre' post'. list_insert n c xs = pre' @ a # b # post'"
proof (cases "n \<le> length pre")
  case True
  then have "list_insert n c xs = (take n pre @ c # drop n pre) @ a # b # post"
    using assms(1) by (simp add: list_insert_def)
  then show ?thesis by blast
next
  case False
  then obtain k where k: "n = Suc (Suc (length pre + k))" using assms(2)
    by (metis Suc_leI add_Suc_right le_neq_implies_less less_imp_Suc_add not_less_eq_eq not_le)
  have "list_insert n c xs = pre @ a # b # (take k post @ c # drop k post)"
    using assms(1) k by (simp add: list_insert_def)
  then show ?thesis by blast
qed

lemma adjacent_append:
  "xs = pre @ a # b # post \<Longrightarrow> \<exists>pre' post'. xs @ ys = pre' @ a # b # post'"
  by auto

lemma adjacent_after_insert:
  assumes "a \<in> set xs"
  shows "\<exists>pre post. list_insert (Suc (index_of a xs)) c xs = pre @ a # c # post"
proof -
  let ?k = "index_of a xs"
  have k: "?k < length xs" using assms by (rule index_of_less)
  have "take (Suc ?k) xs = take ?k xs @ [xs ! ?k]" using k by (rule take_Suc_conv_app_nth)
  then have "take (Suc ?k) xs = take ?k xs @ [a]" using nth_index_of[OF assms] by simp
  then have "list_insert (Suc ?k) c xs = take ?k xs @ a # c # drop (Suc ?k) xs"
    by (simp add: list_insert_def)
  then show ?thesis by blast
qed

lemma moved_before:
  assumes d: "distinct xs" and x: "x \<in> set xs" and y: "y \<in> set xs"
    and lt: "index_of y xs < index_of x xs"
  shows "\<exists>pre post. list_insert (index_of y xs) x (list_pop (index_of x xs) xs) = pre @ x # y # post"
proof -
  let ?i = "index_of x xs" and ?j = "index_of y xs"
  have i: "?i < length xs" using x by (rule index_of_less)
  have t: "take ?j (list_pop ?i xs) = take ?j xs" using lt i by (simp add: list_pop_def)
  have "drop ?j (list_pop ?i xs) = drop ?j (take ?i xs) @ drop (Suc ?i) xs"
    using lt i by (simp add: list_pop_def)
  moreover have "drop ?j (take ?i xs) = (take ?i xs ! ?j) # drop (Suc ?j) (take ?i xs)"
    using lt i by (intro Cons_nth_drop_Suc[symmetric]) simp
  moreover have "take ?i xs ! ?j = y" using lt nth_index_of[OF y] by simp
  ultimately have dr: "drop ?j (list_pop ?i xs) = y # (drop (Suc ?j) (take ?i xs) @ drop (Suc ?i) xs)"
    by simp
  have "list_insert ?j x (list_pop ?i xs) = take ?j xs @ x # y # (drop (Suc ?j) (take ?i xs) @ drop (Suc ?i) xs)"
    unfolding list_insert_def t dr ..
  then show ?thesis by blast
qed

lemma insert_keeps_order:
  assumes d: "distinct xs" and x: "x \<in> set xs" and y: "y \<in> set xs" and c: "c \<notin> set xs"
  shows "(index_of x (list_insert n c xs) < index_of y (list_insert n c xs)) = (index_of x xs < index_of y xs)"
proof -
  have cx: "c \<noteq> x" and cy: "c \<noteq> y" using x y c by auto
  show ?thesis
    unfolding list_insert_def index_of_insert_old[OF d x cx] index_of_insert_old[OF d y cy]
    by auto
qed

lemma set_list_insert: "set (list_insert n c xs) = insert c (set xs)"
proof -
  have "set (take n xs) \<union> set (drop n xs) = set xs"
    by (metis append_take_drop_id set_append)
  then show ?thesis by (auto simp: list_insert_def)
qed

lemma columns_drop_general:
  "columns (drop_general df) = filter (\<lambda>c. c \<notin> set columns_to_drop_general) (columns df)"
proof -
  let ?ex = "filter (\<lambda>col. col \<in> set (columns df)) columns_to_drop_general"
  have "filter (\<lambda>c. c \<notin> set ?ex) (columns df) = filter (\<lambda>c. c \<notin> set columns_to_drop_general) (columns df)"
    by (rule filter_cong) auto
  moreover have "?ex = [] \<Longrightarrow> filter (\<lambda>c. c \<notin> set columns_to_drop_general) (columns df) = columns df"
    by (auto simp: filter_empty_conv filter_id_conv)
  ultimately show ?thesis by (simp add: drop_general_def Let_def columns_drop_columns)
qed

lemma columns_handle_source_filename:
  "columns (handle_source_filename s df)
     = (if ''Source_Filename'' \<notin> set (columns df)
        then (if ''Original_Contract_Number'' \<in> set (columns df)
              then list_insert (Suc (index_of ''Original_Contract_Number'' (columns df))) ''Source_Filename'' (columns df)
              else columns df @ [''Source_Filename''])
        else columns df)"
  by (simp add: handle_source_filename_def Let_def columns_insert_col columns_setitem_scalar
      get_loc_def list_insert_def)

lemma columns_handle_client_action:
  "columns (handle_client_action df)
     = (if ''Client_Action'' \<notin> set (columns df)
        then (if ''Error_Message'' \<in> set (columns df)
              then list_insert (Suc (index_of ''Error_Message'' (columns df))) ''Client_Action'' (columns df)
              else columns df @ [''Client_Action''])
        else columns df)"
  by (simp add: handle_client_action_def columns_insert_col columns_setitem_scalar
      get_loc_def list_insert_def)

lemma frame_step_columns: "frame_step (\<lambda>c. True) V df df' \<Longrightarrow> columns df' = columns df"
  by (simp add: frame_step_def)

lemma columns_cosign_processing:
  assumes wf: "wf_frame df"
  shows "columns (cosign_processing df)
     = (if ''Agent_Number'' \<in> set (columns df)
          \<and> ''COSIGN'' \<in> set (map (\<lambda>v. str_upper (astype_str v)) (series df ''Agent_Number''))
          \<and> ''Source_Filename'' \<in> set (columns df) \<and> ''incoming_client_filename'' \<in> set (columns df)
          \<and> index_of ''incoming_client_filename'' (columns df) < index_of ''Source_Filename'' (columns df)
        then list_insert (index_of ''incoming_client_filename'' (columns df)) ''Source_Filename''
               (list_pop (index_of ''Source_Filename'' (columns df)) (columns df))
        else columns df)"
proof -
  let ?msk = "map (\<lambda>v. str_upper (astype_str v) = ''COSIGN'') (series df ''Agent_Number'')"
  let ?d1 = "fold (clear_cosign_pii ?msk) COSIGN_PII_COLUMNS df"
  have lm: "length ?msk = length (rows df)" by simp
  have c1: "columns ?d1 = columns df"
    using cosign_fold_step[OF wf lm] by (rule frame_step_columns)
  have e: "''Source_Filename'' \<in> set (columns df) \<Longrightarrow>
      columns df ! index_of ''Source_Filename'' (columns df) = ''Source_Filename''"
    by (rule nth_index_of)
  show ?thesis
    using e by (simp add: cosign_processing_def Let_def c1 get_loc_def select_columns_def)
qed

lemma wf_normalize_output: "wf_frame df \<Longrightarrow> wf_frame (normalize_output df)"
  by (auto simp: wf_frame_def normalize_output_def list_all_iff)

lemma pipeline_tail_steps:
  assumes wf3: "wf_frame d3"
    and P: "\<And>c. P c \<Longrightarrow> c \<noteq> ''composite_key'' \<and> c \<noteq> ''Transaction_Reason_Text''"
    and V: "\<And>c. V c \<Longrightarrow> c \<noteq> ''composite_key'' \<and> c \<noteq> ''Transaction_Reason_Text''
              \<and> c \<noteq> ''Error_Type'' \<and> c \<noteq> ''Client_Action'' \<and> c \<notin> set pii_columns_customer"
    and ca: "frame_step P V d3 (handle_client_action d3)"
  shows "frame_step P V d3
     (let df4 = handle_client_action d3;
          df5 = (case mopt of None \<Rightarrow> df4 | Some mapping_df \<Rightarrow> fst (apply_error_mapping df4 mapping_df))
      in if remove_pii then remove_customer_pii df5 else df5)"
proof -
  let ?d4 = "handle_client_action d3"
  let ?d5 = "(case mopt of None \<Rightarrow> ?d4 | Some mapping_df \<Rightarrow> fst (apply_error_mapping ?d4 mapping_df))"
  let ?d6 = "if remove_pii then remove_customer_pii ?d5 else ?d5"
  have wf4: "wf_frame ?d4" using ca by (rule frame_step_wf)
  have s5: "frame_step P V ?d4 ?d5"
  proof (cases mopt)
    case None
    then show ?thesis using wf4 by (simp add: frame_step_refl)
  next
    case (Some m)
    have "frame_step P V ?d4 (fst (apply_error_mapping ?d4 m))"
      by (rule frame_step_weaken[OF engine_step[OF wf4]]) (use P V in auto)
    then show ?thesis using Some by simp
  qed
  have wf5: "wf_frame ?d5" using s5 by (rule frame_step_wf)
  have s6: "frame_step P V ?d5 ?d6"
  proof (cases remove_pii)
    case False
    then show ?thesis using wf5 by (simp add: frame_step_refl)
  next
    case True
    have "frame_step P V ?d5 (remove_customer_pii ?d5)"
      by (rule frame_step_weaken[OF remove_customer_pii_step[OF wf5]]) (use V in auto)
    then show ?thesis using True by simp
  qed
  have "frame_step P V d3 ?d6"
    using ca s5 s6 by (blast intro: frame_step_trans)
  then show ?thesis by (simp add: Let_def)
qed

lemma pipeline_tail_columns:
  assumes wf3: "wf_frame d3"
  assumes out_def: "out = normalize_output
     (let df4 = handle_client_action d3;
          df5 = (case mopt of None \<Rightarrow> df4 | Some mapping_df \<Rightarrow> fst (apply_error_mapping df4 mapping_df))
      in if remove_pii then remove_customer_pii df5 else df5)"
  shows "wf_frame out"
    and "wf_frame (handle_client_action d3)"
    and "columns out = columns (handle_client_action d3)
       \<or> columns out = filter (\<lambda>c. c \<noteq> ''composite_key'' \<and> c \<noteq> ''Transaction_Reason_Text'')
                          (columns (handle_client_action d3))"
proof -
  let ?d4 = "handle_client_action d3"
  let ?d5 = "(case mopt of None \<Rightarrow> ?d4 | Some mapping_df \<Rightarrow> fst (apply_error_mapping ?d4 mapping_df))"
  let ?d6 = "if remove_pii then remove_customer_pii ?d5 else ?d5"
  have o: "out = normalize_output ?d6" by (simp add: out_def Let_def)
  show wf4: "wf_frame ?d4" using handle_client_action_step[OF wf3] by (rule frame_step_wf)
  have wf5: "wf_frame ?d5" using wf4 engine_frame(1)[OF wf4] by (cases mopt) simp_all
  have c5: "columns ?d5 = columns ?d4
       \<or> columns ?d5 = filter (\<lambda>c. c \<noteq> ''composite_key'' \<and> c \<noteq> ''Transaction_Reason_Text'') (columns ?d4)"
    using engine_frame(3)[OF wf4] by (cases mopt) simp_all
  have c6: "columns ?d6 = columns ?d5"
    using frame_step_columns[OF remove_customer_pii_step[OF wf5]] by simp
  have wf6: "wf_frame ?d6"
    using wf5 frame_step_wf[OF remove_customer_pii_step[OF wf5]] by simp
  show "wf_frame out" unfolding o using wf6 by (rule wf_normalize_output)
  have "columns out = columns ?d6" unfolding o by (simp add: normalize_output_def)
  then show "columns out = columns ?d4
       \<or> columns out = filter (\<lambda>c. c \<noteq> ''composite_key'' \<and> c \<noteq> ''Transaction_Reason_Text'') (columns ?d4)"
    using c5 c6 by simp
qed

lemma pipeline_tail_adjacent:
  assumes wf3: "wf_frame d3" and cols: "columns d3 = pre @ a # b # post"
    and a: "a \<noteq> ''Error_Message''" "a \<noteq> ''composite_key''" "a \<noteq> ''Transaction_Reason_Text''"
    and b: "b \<noteq> ''composite_key''" "b \<noteq> ''Transaction_Reason_Text''"
  assumes out_def: "out = normalize_output
     (let df4 = handle_client_action d3;
          df5 = (case mopt of None \<Rightarrow> df4 | Some mapping_df \<Rightarrow> fst (apply_error_mapping df4 mapping_df))
      in if remove_pii then remove_customer_pii df5 else df5)"
  shows "index_of b (columns out) = Suc (index_of a (columns out))"
proof -
  let ?d4 = "handle_client_action d3"
  let ?Q = "\<lambda>c. c \<noteq> ''composite_key'' \<and> c \<noteq> ''Transaction_Reason_Text''"
  note t = pipeline_tail_columns[OF wf3 out_def]
  have d3: "distinct (columns d3)" using wf3 by (rule wf_frame_distinct)
  have apre: "a \<notin> set pre" using d3 cols by auto
  have ia: "index_of a (columns d3) = length pre" using apre by (simp add: cols index_of_append)
  have c4: "\<exists>pre' post'. columns ?d4 = pre' @ a # b # post'"
  proof -
    have ne: "''Error_Message'' \<in> set (columns d3) \<Longrightarrow>
        Suc (index_of ''Error_Message'' (columns d3)) \<noteq> Suc (length pre)"
    proof -
      assume em: "''Error_Message'' \<in> set (columns d3)"
      have ain: "a \<in> set (columns d3)" using cols by simp
      have "index_of a (columns d3) \<noteq> index_of ''Error_Message'' (columns d3)"
        using index_of_neq[OF ain a(1)] .
      then show ?thesis using ia by simp
    qed
    show ?thesis
      unfolding columns_handle_client_action
      using adjacent_insert[OF cols ne] adjacent_append[OF cols] cols by auto
  qed
  then obtain pre' post' where c4': "columns ?d4 = pre' @ a # b # post'" by blast
  have "\<exists>p q. columns out = p @ a # b # q"
    using t(3) c4' adjacent_filter[OF c4', of ?Q] a b by auto
  then obtain p q where co: "columns out = p @ a # b # q" by blast
  show ?thesis using wf_frame_distinct[OF t(1)] co by (rule adjacent_index)
qed

lemma pipeline_tail_order:
  assumes wf3: "wf_frame d3" and c: "c \<in> set (columns d3)" and x: "x \<in> set (columns d3)"
    and lt: "index_of c (columns d3) < index_of x (columns d3)"
  assumes out_def: "out = normalize_output
     (let df4 = handle_client_action d3;
          df5 = (case mopt of None \<Rightarrow> df4 | Some mapping_df \<Rightarrow> fst (apply_error_mapping df4 mapping_df))
      in if remove_pii then remove_customer_pii df5 else df5)"
  assumes co: "c \<in> set (columns out)" and xo: "x \<in> set (columns out)"
  shows "index_of c (columns out) < index_of x (columns out)"
proof -
  let ?d4 = "handle_client_action d3"
  let ?Q = "\<lambda>c. c \<noteq> ''composite_key'' \<and> c \<noteq> ''Transaction_Reason_Text''"
  note t = pipeline_tail_columns[OF wf3 out_def]
  have d3: "distinct (columns d3)" using wf3 by (rule wf_frame_distinct)
  have c4: "c \<in> set (columns ?d4)" and x4: "x \<in> set (columns ?d4)"
    using c x by (simp_all add: columns_handle_client_action set_list_insert)
  have l4: "index_of c (columns ?d4) < index_of x (columns ?d4)"
  proof -
    have "''Client_Action'' \<notin> set (columns d3) \<Longrightarrow>
      index_of c (list_insert n ''Client_Action'' (columns d3)) < index_of x (list_insert n ''Client_Action'' (columns d3))" for n
      using insert_keeps_order[OF d3 c x] lt by simp
    moreover have "index_of c (columns d3 @ ys) < index_of x (columns d3 @ ys)" for ys
      using c x lt by (simp add: index_of_append)
    ultimately show ?thesis using lt by (simp add: columns_handle_client_action)
  qed
  show ?thesis
  proof (cases "columns out = columns ?d4")
    case True
    then show ?thesis using l4 by simp
  next
    case False
    then have f: "columns out = filter ?Q (columns ?d4)" using t(3) by blast
    have qc: "?Q c" and qx: "?Q x" using co xo unfolding f by auto
    show ?thesis unfolding f using index_of_filter_less[of ?Q c x, OF qc qx c4 x4] l4 by simp
  qed
qed

section \<open>The claims\<close>

subsection \<open>Reason Code Translator\<close>

lemma translate_fixed_labels:
  "get_transaction_reason_text (Intg 1) = Inr ''Sales''"
  "get_transaction_reason_text (Intg 5) = Inr ''Sales''"
  "get_transaction_reason_text (Intg 2) = Inr ''Payments''"
  "get_transaction_reason_text (Intg 3) = Inr ''Cancels''"
  "get_transaction_reason_text (Str ''1'') = Inr ''Sales''"
  "get_transaction_reason_text (Str ''X'') = Inr ''X''"
  by code_simp+

text \<open>
  C5: the translator is total; it returns the fixed label for 1, 2, 3, 5 and the string
  form of every other input, and never fails. The code guards \<open>int(code)\<close> with
  \<open>str(code).isdigit()\<close>, which is true of the one-character string U+00B2 (superscript
  two), and \<open>int\<close> raises ValueError on it: the translator fails on that input.
\<close>

theorem translate_superscript_digit_fails:
  "get_transaction_reason_text (Str [CHR 0xB2]) = Inl ValueError"
  by code_simp

subsection \<open>Mapping Table Loader\<close>

text \<open>
  C4: the loaded mapping table has no two fully identical rows after all load-time
  processing, also when two input rows differ only by leading or trailing whitespace in
  the stripped columns. The loader removes duplicates before it strips: two rows that
  differ only by a trailing space in Error_Type both stay and are equal in the table
  returned.
\<close>

theorem loader_keeps_rows_equal_after_stripping:
  "load_error_mapping_file
     \<lparr>columns = [''Error_Type'', ''Client_Error_Type'', ''Client Action''],
      rows = [[''ERR1'', ''E1'', ''Act''], [''ERR1 '', ''E1'', ''Act'']]\<rparr>
   = Some \<lparr>columns = [''Error_Type'', ''Client_Error_Type'', ''Client Action''],
      rows = [[''ERR1'', ''E1'', ''Act''], [''ERR1'', ''E1'', ''Act'']]\<rparr>
   \<and> \<not> distinct (rows \<lparr>columns = [''Error_Type'', ''Client_Error_Type'', ''Client Action''],
      rows = [[''ERR1'', ''E1'', ''Act''], [''ERR1'', ''E1'', ''Act'']]\<rparr>)"
  by code_simp

text \<open>
  C4, as the code has it: the rows of the input whose Error_Type is not blank are kept,
  each once, and this before any stripping; the table returned is those rows with the
  key columns stripped; it has no two identical rows exactly when stripping maps no two
  different input rows with a non-blank Error_Type to the same row. Two such rows that
  become equal by stripping are both in the table returned, as one and the same row
  twice.
\<close>

theorem loader_removes_duplicates_before_stripping:
  assumes "wf_frame raw" and "load_error_mapping_file raw = Some t"
  shows "distinct (rows (remove_blank_and_duplicate_rows raw))
     \<and> set (rows (remove_blank_and_duplicate_rows raw))
         = {r \<in> set (rows raw). str_strip (r ! get_loc raw ''Error_Type'') \<noteq> ''''}
     \<and> rows t = map (strip_row (columns raw)) (rows (remove_blank_and_duplicate_rows raw))
     \<and> (distinct (rows t) \<longleftrightarrow>
          inj_on (strip_row (columns raw))
            {r \<in> set (rows raw). str_strip (r ! get_loc raw ''Error_Type'') \<noteq> ''''})
     \<and> (\<forall>r1 \<in> set (rows raw). \<forall>r2 \<in> set (rows raw).
          str_strip (r1 ! get_loc raw ''Error_Type'') \<noteq> '''' \<and>
          str_strip (r2 ! get_loc raw ''Error_Type'') \<noteq> '''' \<and>
          r1 \<noteq> r2 \<and> strip_row (columns raw) r1 = strip_row (columns raw) r2 \<longrightarrow>
          strip_row (columns raw) r1 \<in> set (rows t) \<and> \<not> distinct (rows t))"
proof -
  let ?pre = "remove_blank_and_duplicate_rows raw"
  let ?keep = "{r \<in> set (rows raw). str_strip (r ! get_loc raw ''Error_Type'') \<noteq> ''''}"
  let ?f = "strip_row (columns raw)"
  have t: "t = strip_key_columns ?pre"
    using assms(2) by (simp add: load_error_mapping_file_def Let_def split: if_splits)
  have d: "distinct (rows ?pre)"
    by (simp add: remove_blank_and_duplicate_rows_def drop_duplicates_def distinct_unique)
  have s: "set (rows ?pre) = ?keep" by (rule loader_retained_rows)
  have r: "rows t = map ?f (rows ?pre)"
    using strip_key_columns_rows(2)[OF wf_remove_blank_and_duplicate_rows[OF assms(1)]] t by simp
  have i: "distinct (rows t) \<longleftrightarrow> inj_on ?f ?keep"
    using d r s by (simp add: distinct_map)
  have img: "set (rows t) = ?f ` ?keep" using r s by simp
  have last: "\<forall>r1 \<in> set (rows raw). \<forall>r2 \<in> set (rows raw).
          str_strip (r1 ! get_loc raw ''Error_Type'') \<noteq> '''' \<and>
          str_strip (r2 ! get_loc raw ''Error_Type'') \<noteq> '''' \<and>
          r1 \<noteq> r2 \<and> ?f r1 = ?f r2 \<longrightarrow> ?f r1 \<in> set (rows t) \<and> \<not> distinct (rows t)"
  proof (intro ballI impI)
    fix r1 r2 assume r1: "r1 \<in> set (rows raw)" and r2: "r2 \<in> set (rows raw)"
      and h: "str_strip (r1 ! get_loc raw ''Error_Type'') \<noteq> '''' \<and>
          str_strip (r2 ! get_loc raw ''Error_Type'') \<noteq> '''' \<and> r1 \<noteq> r2 \<and> ?f r1 = ?f r2"
    have k1: "r1 \<in> ?keep" and k2: "r2 \<in> ?keep" using r1 r2 h by simp_all
    have "\<not> inj_on ?f ?keep" using k1 k2 h unfolding inj_on_def by blast
    then show "?f r1 \<in> set (rows t) \<and> \<not> distinct (rows t)" using i img k1 by blast
  qed
  show ?thesis using d s r i last by (intro conjI)
qed

theorem loader_removes_duplicates_before_stripping_witness:
  "wf_frame \<lparr>columns = [''Error_Type'', ''Client_Error_Type'', ''Client Action''],
      rows = [[''ERR1'', ''E1'', ''Act''], [''  '', ''E0'', ''Act''], [''ERR1'', ''E1'', ''Act''],
              ['' ERR2'', ''E2 '', ''Act'']]\<rparr>
   \<and> load_error_mapping_file
        \<lparr>columns = [''Error_Type'', ''Client_Error_Type'', ''Client Action''],
         rows = [[''ERR1'', ''E1'', ''Act''], [''  '', ''E0'', ''Act''], [''ERR1'', ''E1'', ''Act''],
                 ['' ERR2'', ''E2 '', ''Act'']]\<rparr>
      = Some \<lparr>columns = [''Error_Type'', ''Client_Error_Type'', ''Client Action''],
         rows = [[''ERR1'', ''E1'', ''Act''], [''ERR2'', ''E2'', ''Act'']]\<rparr>
   \<and> distinct (rows (remove_blank_and_duplicate_rows
        \<lparr>columns = [''Error_Type'', ''Client_Error_Type'', ''Client Action''],
         rows = [[''ERR1'', ''E1'', ''Act''], [''  '', ''E0'', ''Act''], [''ERR1'', ''E1'', ''Act''],
                 ['' ERR2'', ''E2 '', ''Act'']]\<rparr>))
   \<and> inj_on (strip_row [''Error_Type'', ''Client_Error_Type'', ''Client Action''])
        {r \<in> set [[''ERR1'', ''E1'', ''Act''], [''  '', ''E0'', ''Act''], [''ERR1'', ''E1'', ''Act''],
                    ['' ERR2'', ''E2 '', ''Act'']].
           str_strip (r ! get_loc \<lparr>columns = [''Error_Type'', ''Client_Error_Type'', ''Client Action''],
                              rows = [[''ERR1'', ''E1'', ''Act''], [''  '', ''E0'', ''Act''],
                                      [''ERR1'', ''E1'', ''Act''], ['' ERR2'', ''E2 '', ''Act'']]\<rparr>
                          ''Error_Type'') \<noteq> ''''}"
proof -
  let ?raw = "\<lparr>columns = [''Error_Type'', ''Client_Error_Type'', ''Client Action''],
      rows = [[''ERR1'', ''E1'', ''Act''], [''  '', ''E0'', ''Act''], [''ERR1'', ''E1'', ''Act''],
              ['' ERR2'', ''E2 '', ''Act'']]\<rparr>"
  let ?t = "\<lparr>columns = [''Error_Type'', ''Client_Error_Type'', ''Client Action''],
      rows = [[''ERR1'', ''E1'', ''Act''], [''ERR2'', ''E2'', ''Act'']]\<rparr>"
  have h1: "wf_frame ?raw" by code_simp
  have h2: "load_error_mapping_file ?raw = Some ?t" by code_simp
  have d: "distinct (rows ?t)" by simp
  from loader_removes_duplicates_before_stripping [OF h1 h2] d h1 h2 show ?thesis by simp
qed

subsection \<open>Error Mapping Engine\<close>

text \<open>
  C1: an error row matched only by its Error_Type gets the Client_Action of the rule for
  its original Error_Type. The code writes the rule's Client_Error_Type into Error_Type
  first and then looks the action up under that new value: with the one rule
  ERR1 \<mapsto> (E1-Mapped, Resubmit) the row's Client_Action becomes the empty string, not
  Resubmit.
\<close>

theorem tier2_action_looked_up_under_rewritten_error_type:
  "apply_error_mapping
     \<lparr>columns = [''Error_Type'', ''isError'', ''Client_Action''],
      rows = [[Str ''ERR1'', Str ''TRUE'', Str ''old'']]\<rparr>
     \<lparr>columns = [''Error_Type'', ''Client_Error_Type'', ''Client Action''],
      rows = [[''ERR1'', ''E1-Mapped'', ''Resubmit'']]\<rparr>
   = (\<lparr>columns = [''Error_Type'', ''isError'', ''Client_Action''],
       rows = [[Str ''E1-Mapped'', Str ''TRUE'', Str '''']]\<rparr>,
      Coverage 1 1 [] False)"
  by code_simp

text \<open>
  C3: the composite-key index holds only rules whose file_type_2 is non-empty, so that a
  row with an empty reason text never matches in tier 1 a rule with an empty file_type_2.
  The code builds the key Error_Type|file_type_2 of every rule and filters none: the
  index of a table whose rule has an empty file_type_2 has the key \<open>ERR1|\<close>, and an error
  row with Error_Type ERR1 and an empty reason text is matched by it in strategy 1.
\<close>

theorem composite_index_has_rule_with_empty_file_type:
  "dict_zip (mapping_composite_keys [''ERR1''] ['''']) [''E1-Mapped''] ''ERR1|'' = Some ''E1-Mapped''
   \<and> add_reason_text
       \<lparr>columns = [''Error_Type'', ''isError'', ''Transaction_Reason'', ''Client_Action''],
        rows = [[Str ''ERR1'', Str ''TRUE'', Str '''', Str '''']]\<rparr>
     = Inr \<lparr>columns = [''Error_Type'', ''isError'', ''Transaction_Reason'', ''Client_Action'',
                       ''Transaction_Reason_Text''],
            rows = [[Str ''ERR1'', Str ''TRUE'', Str '''', Str '''', Str '''']]\<rparr>
   \<and> strategy1
       \<lparr>columns = [''Error_Type'', ''isError'', ''Transaction_Reason'', ''Client_Action'',
                   ''Transaction_Reason_Text''],
        rows = [[Str ''ERR1'', Str ''TRUE'', Str '''', Str '''', Str '''']]\<rparr>
       \<lparr>columns = [''Error_Type'', ''file_type_2'', ''Client_Error_Type'', ''Client Action''],
        rows = [[''ERR1'', '''', ''E1-Mapped'', ''Resubmit'']]\<rparr>
       [True]
     = Inr (\<lparr>columns = [''Error_Type'', ''isError'', ''Transaction_Reason'', ''Client_Action'',
                        ''Transaction_Reason_Text'', ''composite_key''],
             rows = [[Str ''E1-Mapped'', Str ''TRUE'', Str '''', Str ''Resubmit'', Str '''',
                      Str ''ERR1|'']]\<rparr>,
            Some [True], 1)"
  by code_simp

text \<open>
  C3, as the code has it: the index holds the key Error_Type|file_type_2 of every rule,
  whatever its file_type_2, and when strategy 1 runs a row is matched exactly when it is
  an error row and its key Error_Type|reason text is the key of some rule.
\<close>

theorem composite_index_holds_every_rule:
  assumes "wf_frame df"
    and "''Transaction_Reason_Text'' \<in> set (columns df)" and "''file_type_2'' \<in> set (columns m)"
    and "strategy1 df m er = Inr (df', em, a)"
  shows "em = Some (map (\<lambda>(e, k). e \<and> k \<in> set (mapping_composite_keys (series m ''Error_Type'') (series m ''file_type_2'')))
                     (zip er (ack_composite_keys df)))"
  using assms by (rule strategy1_mask)

theorem composite_index_holds_every_rule_witness:
  "wf_frame \<lparr>columns = [''Error_Type'', ''isError'', ''Client_Action'', ''Transaction_Reason_Text''],
             rows = [[Str ''ERR1'', Str ''TRUE'', Str '''', Str ''Sales''],
                     [Str ''ERR2'', Str ''TRUE'', Str '''', Str ''Payments'']]\<rparr>
   \<and> strategy1
       \<lparr>columns = [''Error_Type'', ''isError'', ''Client_Action'', ''Transaction_Reason_Text''],
        rows = [[Str ''ERR1'', Str ''TRUE'', Str '''', Str ''Sales''],
                [Str ''ERR2'', Str ''TRUE'', Str '''', Str ''Payments'']]\<rparr>
       \<lparr>columns = [''Error_Type'', ''file_type_2'', ''Client_Error_Type'', ''Client Action''],
        rows = [[''ERR1'', ''Sales'', ''E1-Mapped'', ''Resubmit'']]\<rparr>
       [True, True]
     = Inr (\<lparr>columns = [''Error_Type'', ''isError'', ''Client_Action'', ''Transaction_Reason_Text'',
                        ''composite_key''],
             rows = [[Str ''E1-Mapped'', Str ''TRUE'', Str ''Resubmit'', Str ''Sales'', Str ''ERR1|Sales''],
                     [Str ''ERR2'', Str ''TRUE'', Str '''', Str ''Payments'', Str ''ERR2|Payments'']]\<rparr>,
            Some [True, False], 1)
   \<and> Some [True, False]
       = Some (map (\<lambda>(e, k). e \<and> k \<in> set (mapping_composite_keys
                 (series \<lparr>columns = [''Error_Type'', ''file_type_2'', ''Client_Error_Type'', ''Client Action''],
                          rows = [[''ERR1'', ''Sales'', ''E1-Mapped'', ''Resubmit'']]\<rparr> ''Error_Type'')
                 (series \<lparr>columns = [''Error_Type'', ''file_type_2'', ''Client_Error_Type'', ''Client Action''],
                          rows = [[''ERR1'', ''Sales'', ''E1-Mapped'', ''Resubmit'']]\<rparr> ''file_type_2'')))
           (zip [True, True]
              (ack_composite_keys
                 \<lparr>columns = [''Error_Type'', ''isError'', ''Client_Action'', ''Transaction_Reason_Text''],
                  rows = [[Str ''ERR1'', Str ''TRUE'', Str '''', Str ''Sales''],
                          [Str ''ERR2'', Str ''TRUE'', Str '''', Str ''Payments'']]\<rparr>)))"
proof -
  let ?df = "\<lparr>columns = [''Error_Type'', ''isError'', ''Client_Action'', ''Transaction_Reason_Text''],
             rows = [[Str ''ERR1'', Str ''TRUE'', Str '''', Str ''Sales''],
                     [Str ''ERR2'', Str ''TRUE'', Str '''', Str ''Payments'']]\<rparr>"
  let ?m = "\<lparr>columns = [''Error_Type'', ''file_type_2'', ''Client_Error_Type'', ''Client Action''],
        rows = [[''ERR1'', ''Sales'', ''E1-Mapped'', ''Resubmit'']]\<rparr>"
  let ?df' = "\<lparr>columns = [''Error_Type'', ''isError'', ''Client_Action'', ''Transaction_Reason_Text'',
                        ''composite_key''],
             rows = [[Str ''E1-Mapped'', Str ''TRUE'', Str ''Resubmit'', Str ''Sales'', Str ''ERR1|Sales''],
                     [Str ''ERR2'', Str ''TRUE'', Str '''', Str ''Payments'', Str ''ERR2|Payments'']]\<rparr>"
  have h1: "wf_frame ?df" by code_simp
  have h2: "''Transaction_Reason_Text'' \<in> set (columns ?df)" by simp
  have h3: "''file_type_2'' \<in> set (columns ?m)" by simp
  have h4: "strategy1 ?df ?m [True, True] = Inr (?df', Some [True, False], 1)" by code_simp
  from composite_index_holds_every_rule [OF h1 h2 h3 h4] h1 h4 show ?thesis by (intro conjI)
qed

text \<open>
  C6: for every record set and mapping table, a row that is not an error row appears in
  the output with every cell equal to its input value, and no transient column is in the
  output. The engine writes its transient columns under the names composite_key and
  Transaction_Reason_Text and drops columns of these names at the end: an input column
  named composite_key is dropped with them, and the row that is not an error row loses
  its cell.
\<close>

theorem input_column_named_composite_key_is_dropped:
  "apply_error_mapping
     \<lparr>columns = [''Error_Type'', ''isError'', ''composite_key''],
      rows = [[Str ''ERR1'', Str ''TRUE'', Str ''keepA''], [Str ''ERR2'', Str ''FALSE'', Str ''keepB'']]\<rparr>
     \<lparr>columns = [''Error_Type'', ''Client_Error_Type'', ''Client Action''],
      rows = [[''ERR1'', ''E1-Mapped'', ''Resubmit'']]\<rparr>
   = (\<lparr>columns = [''Error_Type'', ''isError''],
       rows = [[Str ''E1-Mapped'', Str ''TRUE''], [Str ''ERR2'', Str ''FALSE'']]\<rparr>,
      Coverage 1 1 [] False)"
  by code_simp

text \<open>
  C6, as the code has it: the output has the rows of the input in number; its columns are
  the input's, in order, or the input's less those named composite_key and
  Transaction_Reason_Text; a row that is not an error row has its input value in every
  column of the output. For an input without columns of these two names the columns are
  the input's and every row that is not an error row is returned cell for cell, so that
  no transient column is in the output.
\<close>

theorem engine_non_error_rows:
  assumes wf: "wf_frame ack"
  shows "length (rows (fst (apply_error_mapping ack m))) = length (rows ack)
     \<and> (columns (fst (apply_error_mapping ack m)) = columns ack
        \<or> columns (fst (apply_error_mapping ack m))
            = filter (\<lambda>c. c \<noteq> ''composite_key'' \<and> c \<noteq> ''Transaction_Reason_Text'') (columns ack))
     \<and> (\<forall>i < length (rows ack). \<not> error_rows_of ack ! i \<longrightarrow>
          (\<forall>c \<in> set (columns (fst (apply_error_mapping ack m))).
             series (fst (apply_error_mapping ack m)) c ! i = series ack c ! i))
     \<and> (''composite_key'' \<notin> set (columns ack) \<and> ''Transaction_Reason_Text'' \<notin> set (columns ack) \<longrightarrow>
          columns (fst (apply_error_mapping ack m)) = columns ack
          \<and> (\<forall>i < length (rows ack). \<not> error_rows_of ack ! i \<longrightarrow>
                rows (fst (apply_error_mapping ack m)) ! i = rows ack ! i))"
proof -
  let ?out = "fst (apply_error_mapping ack m)"
  note f = engine_frame[OF wf, where m=m]
  have cells: "\<forall>i < length (rows ack). \<not> error_rows_of ack ! i \<longrightarrow>
          (\<forall>c \<in> set (columns ?out). series ?out c ! i = series ack c ! i)"
    using f(4) by blast
  have last: "''composite_key'' \<notin> set (columns ack) \<and> ''Transaction_Reason_Text'' \<notin> set (columns ack) \<longrightarrow>
          columns ?out = columns ack
          \<and> (\<forall>i < length (rows ack). \<not> error_rows_of ack ! i \<longrightarrow> rows ?out ! i = rows ack ! i)"
  proof (intro impI)
    assume no: "''composite_key'' \<notin> set (columns ack) \<and> ''Transaction_Reason_Text'' \<notin> set (columns ack)"
    have "filter (\<lambda>c. c \<noteq> ''composite_key'' \<and> c \<noteq> ''Transaction_Reason_Text'') (columns ack) = columns ack"
      using no by (intro filter_True) auto
    then have c: "columns ?out = columns ack" using f(3) by auto
    have "\<forall>i < length (rows ack). \<not> error_rows_of ack ! i \<longrightarrow> rows ?out ! i = rows ack ! i"
    proof (intro allI impI)
      fix i assume i: "i < length (rows ack)" and n: "\<not> error_rows_of ack ! i"
      show "rows ?out ! i = rows ack ! i"
        using wf f(1) c i f(2) cells n by (intro rows_eqI) simp_all
    qed
    then show "columns ?out = columns ack
          \<and> (\<forall>i < length (rows ack). \<not> error_rows_of ack ! i \<longrightarrow> rows ?out ! i = rows ack ! i)"
      using c by simp
  qed
  show ?thesis using f(2) f(3) cells last by (intro conjI)
qed

theorem engine_non_error_rows_witness:
  "wf_frame \<lparr>columns = [''Error_Type'', ''isError'', ''Transaction_Reason'', ''Client_Action''],
             rows = [[Str ''ERR1'', Bool True, Intg 1, NaN], [Intg 7, Bool False, Intg 2, Str ''keep'']]\<rparr>
   \<and> fst (apply_error_mapping
        \<lparr>columns = [''Error_Type'', ''isError'', ''Transaction_Reason'', ''Client_Action''],
         rows = [[Str ''ERR1'', Bool True, Intg 1, NaN], [Intg 7, Bool False, Intg 2, Str ''keep'']]\<rparr>
        \<lparr>columns = [''Error_Type'', ''file_type_2'', ''Client_Error_Type'', ''Client Action''],
         rows = [[''ERR1'', ''Sales'', ''E1-Mapped'', ''Resubmit'']]\<rparr>)
     = \<lparr>columns = [''Error_Type'', ''isError'', ''Transaction_Reason'', ''Client_Action''],
        rows = [[Str ''E1-Mapped'', Bool True, Intg 1, Str ''Resubmit''],
                [Intg 7, Bool False, Intg 2, Str ''keep'']]\<rparr>
   \<and> rows (fst (apply_error_mapping
        \<lparr>columns = [''Error_Type'', ''isError'', ''Transaction_Reason'', ''Client_Action''],
         rows = [[Str ''ERR1'', Bool True, Intg 1, NaN], [Intg 7, Bool False, Intg 2, Str ''keep'']]\<rparr>
        \<lparr>columns = [''Error_Type'', ''file_type_2'', ''Client_Error_Type'', ''Client Action''],
         rows = [[''ERR1'', ''Sales'', ''E1-Mapped'', ''Resubmit'']]\<rparr>)) ! 1
     = [Intg 7, Bool False, Intg 2, Str ''keep'']"
proof -
  let ?ack = "\<lparr>columns = [''Error_Type'', ''isError'', ''Transaction_Reason'', ''Client_Action''],
             rows = [[Str ''ERR1'', Bool True, Intg 1, NaN], [Intg 7, Bool False, Intg 2, Str ''keep'']]\<rparr>"
  let ?m = "\<lparr>columns = [''Error_Type'', ''file_type_2'', ''Client_Error_Type'', ''Client Action''],
         rows = [[''ERR1'', ''Sales'', ''E1-Mapped'', ''Resubmit'']]\<rparr>"
  have h: "wf_frame ?ack" by code_simp
  have e: "\<not> error_rows_of ?ack ! 1" by code_simp
  have v: "fst (apply_error_mapping ?ack ?m)
     = \<lparr>columns = [''Error_Type'', ''isError'', ''Transaction_Reason'', ''Client_Action''],
        rows = [[Str ''E1-Mapped'', Bool True, Intg 1, Str ''Resubmit''],
                [Intg 7, Bool False, Intg 2, Str ''keep'']]\<rparr>" by code_simp
  have "rows (fst (apply_error_mapping ?ack ?m)) ! 1 = rows ?ack ! 1"
    using engine_non_error_rows [OF h, of ?m] e by simp
  then show ?thesis using h v by simp
qed

text \<open>
  C7: the engine never raises past its boundary. For every well-formed input:
  when Error_Type or isError is absent it returns the input unchanged and names the missing
  columns; the call reports a failure exactly when a statement of the \<open>try\<close> body raised,
  and it then returns the original input, whatever the body had already written to its copy.
  The body raises only past the two guards (both columns present, some error row), and only
  in three ways: \<open>int\<close> on a Transaction_Reason cell (\<open>ValueError\<close>), a column missing from
  the mapping table (\<open>KeyError\<close>), or \<open>', '.join\<close> over an unmatched Error_Type that is not
  a string (\<open>TypeError\<close>). In every case the value returned is a well-formed frame with the
  rows of the input.
\<close>

theorem engine_returns_input_on_every_failure:
  assumes wf: "wf_frame ack_df"
  shows "(''Error_Type'' \<notin> set (columns ack_df) \<or> ''isError'' \<notin> set (columns ack_df) \<longrightarrow>
      apply_error_mapping ack_df mapping_df
        = (ack_df, Skipped (filter (\<lambda>col. col \<notin> set (columns ack_df)) [''Error_Type'', ''isError''])))
   \<and> (\<forall>e. (snd (apply_error_mapping ack_df mapping_df) = Failed e)
            = (apply_error_mapping_try ack_df mapping_df = Inl e))
   \<and> (\<forall>e. apply_error_mapping_try ack_df mapping_df = Inl e \<longrightarrow>
          fst (apply_error_mapping ack_df mapping_df) = ack_df
        \<and> ''Error_Type'' \<in> set (columns ack_df) \<and> ''isError'' \<in> set (columns ack_df)
        \<and> any_true (error_rows_of ack_df)
        \<and> ((e = ValueError \<and> ''Transaction_Reason'' \<in> set (columns ack_df)
              \<and> (\<exists>v \<in> set (series ack_df ''Transaction_Reason'').
                     get_transaction_reason_text v = Inl ValueError))
           \<or> (\<exists>c. e = KeyError c
                 \<and> c \<in> set [''Error_Type'', ''Client_Error_Type'', ''Client Action'']
                 \<and> c \<notin> set (columns mapping_df))
           \<or> (e = TypeError
              \<and> (\<exists>i < length (rows ack_df). error_rows_of ack_df ! i
                    \<and> (\<forall>s. series ack_df ''Error_Type'' ! i \<noteq> Str s)))))
   \<and> wf_frame (fst (apply_error_mapping ack_df mapping_df))
   \<and> length (rows (fst (apply_error_mapping ack_df mapping_df))) = length (rows ack_df)"
proof -
  have A: "''Error_Type'' \<notin> set (columns ack_df) \<or> ''isError'' \<notin> set (columns ack_df) \<longrightarrow>
      apply_error_mapping ack_df mapping_df
        = (ack_df, Skipped (filter (\<lambda>col. col \<notin> set (columns ack_df)) [''Error_Type'', ''isError'']))"
    by (auto simp: apply_error_mapping_def apply_error_mapping_try_def)
  have B: "\<forall>e. (snd (apply_error_mapping ack_df mapping_df) = Failed e)
            = (apply_error_mapping_try ack_df mapping_df = Inl e)"
  proof
    fix e
    show "(snd (apply_error_mapping ack_df mapping_df) = Failed e)
            = (apply_error_mapping_try ack_df mapping_df = Inl e)"
    proof (cases "apply_error_mapping_try ack_df mapping_df")
      case (Inl e')
      then show ?thesis by (simp add: apply_error_mapping_def)
    next
      case (Inr res)
      obtain out rep where res: "res = (out, rep)" by (cases res)
      have "rep \<noteq> Failed e" using apply_error_mapping_try_report[OF Inr[unfolded res]] .
      then show ?thesis using Inr res by (simp add: apply_error_mapping_def)
    qed
  qed
  have C: "\<forall>e. apply_error_mapping_try ack_df mapping_df = Inl e \<longrightarrow>
          fst (apply_error_mapping ack_df mapping_df) = ack_df
        \<and> ''Error_Type'' \<in> set (columns ack_df) \<and> ''isError'' \<in> set (columns ack_df)
        \<and> any_true (error_rows_of ack_df)
        \<and> ((e = ValueError \<and> ''Transaction_Reason'' \<in> set (columns ack_df)
              \<and> (\<exists>v \<in> set (series ack_df ''Transaction_Reason'').
                     get_transaction_reason_text v = Inl ValueError))
           \<or> (\<exists>c. e = KeyError c
                 \<and> c \<in> set [''Error_Type'', ''Client_Error_Type'', ''Client Action'']
                 \<and> c \<notin> set (columns mapping_df))
           \<or> (e = TypeError
              \<and> (\<exists>i < length (rows ack_df). error_rows_of ack_df ! i
                    \<and> (\<forall>s. series ack_df ''Error_Type'' ! i \<noteq> Str s))))"
  proof (intro allI impI)
    fix e assume f: "apply_error_mapping_try ack_df mapping_df = Inl e"
    have o: "fst (apply_error_mapping ack_df mapping_df) = ack_df" using f by (simp add: apply_error_mapping_def)
    show "fst (apply_error_mapping ack_df mapping_df) = ack_df
        \<and> ''Error_Type'' \<in> set (columns ack_df) \<and> ''isError'' \<in> set (columns ack_df)
        \<and> any_true (error_rows_of ack_df)
        \<and> ((e = ValueError \<and> ''Transaction_Reason'' \<in> set (columns ack_df)
              \<and> (\<exists>v \<in> set (series ack_df ''Transaction_Reason'').
                     get_transaction_reason_text v = Inl ValueError))
           \<or> (\<exists>c. e = KeyError c
                 \<and> c \<in> set [''Error_Type'', ''Client_Error_Type'', ''Client Action'']
                 \<and> c \<notin> set (columns mapping_df))
           \<or> (e = TypeError
              \<and> (\<exists>i < length (rows ack_df). error_rows_of ack_df ! i
                    \<and> (\<forall>s. series ack_df ''Error_Type'' ! i \<noteq> Str s))))"
      using o apply_error_mapping_try_Inl_cases[OF f] engine_failure_causes[OF wf f] by blast
  qed
  note D = engine_frame(1,2)[OF wf, where m=mapping_df]
  show ?thesis using A B C D by (intro conjI)
qed

theorem engine_returns_input_on_every_failure_witness:
  "apply_error_mapping \<lparr>columns = [''Error_Type''], rows = [[Str ''ERR1'']]\<rparr>
       \<lparr>columns = [''Error_Type'', ''Client_Error_Type'', ''Client Action''],
        rows = [[''ERR1'', ''E1-Mapped'', ''Resubmit'']]\<rparr>
     = (\<lparr>columns = [''Error_Type''], rows = [[Str ''ERR1'']]\<rparr>, Skipped [''isError''])
   \<and> apply_error_mapping
       \<lparr>columns = [''Error_Type'', ''isError'', ''Transaction_Reason''],
        rows = [[Str ''ERR1'', Str ''TRUE'', Str [CHR 0xB2]]]\<rparr>
       \<lparr>columns = [''Error_Type'', ''Client_Error_Type'', ''Client Action''],
        rows = [[''ERR1'', ''E1-Mapped'', ''Resubmit'']]\<rparr>
     = (\<lparr>columns = [''Error_Type'', ''isError'', ''Transaction_Reason''],
        rows = [[Str ''ERR1'', Str ''TRUE'', Str [CHR 0xB2]]]\<rparr>, Failed ValueError)
   \<and> apply_error_mapping
       \<lparr>columns = [''Error_Type'', ''isError''], rows = [[Str ''ERR1'', Str ''TRUE'']]\<rparr>
       \<lparr>columns = [''Error_Type'', ''Client Action''], rows = [[''ERR1'', ''Resubmit'']]\<rparr>
     = (\<lparr>columns = [''Error_Type'', ''isError''], rows = [[Str ''ERR1'', Str ''TRUE'']]\<rparr>,
        Failed (KeyError ''Client_Error_Type''))
   \<and> strategy1
       \<lparr>columns = [''Error_Type'', ''isError'', ''Transaction_Reason'', ''Transaction_Reason_Text''],
        rows = [[Str ''ERR1'', Str ''TRUE'', Intg 1, Str ''Sales''], [NaN, Str ''TRUE'', Intg 1, Str ''Sales'']]\<rparr>
       \<lparr>columns = [''Error_Type'', ''file_type_2'', ''Client_Error_Type'', ''Client Action''],
        rows = [[''ERR1'', ''Sales'', ''E1-Mapped'', ''Resubmit'']]\<rparr>
       [True, True]
     = Inr (\<lparr>columns = [''Error_Type'', ''isError'', ''Transaction_Reason'', ''Transaction_Reason_Text'',
                        ''composite_key''],
             rows = [[Str ''E1-Mapped'', Str ''TRUE'', Intg 1, Str ''Sales'', Str ''ERR1|Sales''],
                     [NaN, Str ''TRUE'', Intg 1, Str ''Sales'', Str ''nan|Sales'']]\<rparr>,
            Some [True, False], 1)
   \<and> apply_error_mapping
       \<lparr>columns = [''Error_Type'', ''isError'', ''Transaction_Reason''],
        rows = [[Str ''ERR1'', Str ''TRUE'', Intg 1], [NaN, Str ''TRUE'', Intg 1]]\<rparr>
       \<lparr>columns = [''Error_Type'', ''file_type_2'', ''Client_Error_Type'', ''Client Action''],
        rows = [[''ERR1'', ''Sales'', ''E1-Mapped'', ''Resubmit'']]\<rparr>
     = (\<lparr>columns = [''Error_Type'', ''isError'', ''Transaction_Reason''],
        rows = [[Str ''ERR1'', Str ''TRUE'', Intg 1], [NaN, Str ''TRUE'', Intg 1]]\<rparr>,
        Failed TypeError)"
proof -
  let ?m = "\<lparr>columns = [''Error_Type'', ''Client_Error_Type'', ''Client Action''],
        rows = [[''ERR1'', ''E1-Mapped'', ''Resubmit'']]\<rparr>"
  let ?m3 = "\<lparr>columns = [''Error_Type'', ''Client Action''], rows = [[''ERR1'', ''Resubmit'']]\<rparr>"
  let ?m4 = "\<lparr>columns = [''Error_Type'', ''file_type_2'', ''Client_Error_Type'', ''Client Action''],
        rows = [[''ERR1'', ''Sales'', ''E1-Mapped'', ''Resubmit'']]\<rparr>"
  let ?a1 = "\<lparr>columns = [''Error_Type''], rows = [[Str ''ERR1'']]\<rparr>"
  let ?a2 = "\<lparr>columns = [''Error_Type'', ''isError'', ''Transaction_Reason''],
        rows = [[Str ''ERR1'', Str ''TRUE'', Str [CHR 0xB2]]]\<rparr>"
  let ?a3 = "\<lparr>columns = [''Error_Type'', ''isError''], rows = [[Str ''ERR1'', Str ''TRUE'']]\<rparr>"
  let ?a4 = "\<lparr>columns = [''Error_Type'', ''isError'', ''Transaction_Reason''],
        rows = [[Str ''ERR1'', Str ''TRUE'', Intg 1], [NaN, Str ''TRUE'', Intg 1]]\<rparr>"
  have w1: "wf_frame ?a1" by code_simp
  have w2: "wf_frame ?a2" by code_simp
  have w3: "wf_frame ?a3" by code_simp
  have w4: "wf_frame ?a4" by code_simp
  have h2: "apply_error_mapping_try ?a2 ?m = Inl ValueError" by code_simp
  have h3: "apply_error_mapping_try ?a3 ?m3 = Inl (KeyError ''Client_Error_Type'')" by code_simp
  have h4: "apply_error_mapping_try ?a4 ?m4 = Inl TypeError" by code_simp
  have s4: "strategy1
       \<lparr>columns = [''Error_Type'', ''isError'', ''Transaction_Reason'', ''Transaction_Reason_Text''],
        rows = [[Str ''ERR1'', Str ''TRUE'', Intg 1, Str ''Sales''], [NaN, Str ''TRUE'', Intg 1, Str ''Sales'']]\<rparr>
       ?m4 [True, True]
     = Inr (\<lparr>columns = [''Error_Type'', ''isError'', ''Transaction_Reason'', ''Transaction_Reason_Text'',
                        ''composite_key''],
             rows = [[Str ''E1-Mapped'', Str ''TRUE'', Intg 1, Str ''Sales'', Str ''ERR1|Sales''],
                     [NaN, Str ''TRUE'', Intg 1, Str ''Sales'', Str ''nan|Sales'']]\<rparr>,
            Some [True, False], 1)" by code_simp
  have c1: "apply_error_mapping ?a1 ?m = (?a1, Skipped [''isError''])"
    using engine_returns_input_on_every_failure [OF w1, of ?m] by simp
  have c2: "apply_error_mapping ?a2 ?m = (?a2, Failed ValueError)"
    using engine_returns_input_on_every_failure [OF w2, of ?m] h2 by (simp add: prod_eq_iff)
  have c3: "apply_error_mapping ?a3 ?m3 = (?a3, Failed (KeyError ''Client_Error_Type''))"
    using engine_returns_input_on_every_failure [OF w3, of ?m3] h3 by (simp add: prod_eq_iff)
  have c4: "apply_error_mapping ?a4 ?m4 = (?a4, Failed TypeError)"
    using engine_returns_input_on_every_failure [OF w4, of ?m4] h4 by (simp add: prod_eq_iff)
  from c1 c2 c3 c4 s4 show ?thesis by (intro conjI)
qed
text \<open>
  C8: tier 2 applies exactly to the error rows tier 1 has not matched, and when tier 1 is
  skipped (no file_type_2 column in the mapping table, or no Transaction_Reason column in
  the records) tier 2 is attempted against all error rows. The code enters tier 1 when the
  frame has a column named Transaction_Reason_Text, which it adds for a Transaction_Reason
  column but which the records may bring themselves: for records with no Transaction_Reason
  column and a Transaction_Reason_Text column, tier 1 runs, matches the error row under
  \<open>ERR1|Sales\<close>, and tier 2, whose index holds ERR1, is never entered.
\<close>

theorem tier1_runs_without_transaction_reason_column:
  "''Transaction_Reason'' \<notin> set (columns
       \<lparr>columns = [''Error_Type'', ''isError'', ''Client_Action'', ''Transaction_Reason_Text''],
        rows = [[Str ''ERR1'', Str ''TRUE'', Str '''', Str ''Sales'']]\<rparr>)
   \<and> error_rows_of
       \<lparr>columns = [''Error_Type'', ''isError'', ''Client_Action'', ''Transaction_Reason_Text''],
        rows = [[Str ''ERR1'', Str ''TRUE'', Str '''', Str ''Sales'']]\<rparr> = [True]
   \<and> dict_zip [''ERR1'', ''ERR1''] [''E1-Comp'', ''E1-Simple''] ''ERR1'' = Some ''E1-Simple''
   \<and> strategy1
       \<lparr>columns = [''Error_Type'', ''isError'', ''Client_Action'', ''Transaction_Reason_Text''],
        rows = [[Str ''ERR1'', Str ''TRUE'', Str '''', Str ''Sales'']]\<rparr>
       \<lparr>columns = [''Error_Type'', ''file_type_2'', ''Client_Error_Type'', ''Client Action''],
        rows = [[''ERR1'', ''Sales'', ''E1-Comp'', ''ActComp''], [''ERR1'', '''', ''E1-Simple'', ''ActSimple'']]\<rparr>
       [True]
     = Inr (\<lparr>columns = [''Error_Type'', ''isError'', ''Client_Action'', ''Transaction_Reason_Text'',
                        ''composite_key''],
             rows = [[Str ''E1-Comp'', Str ''TRUE'', Str ''ActComp'', Str ''Sales'', Str ''ERR1|Sales'']]\<rparr>,
            Some [True], 1)
   \<and> strategy2
       \<lparr>columns = [''Error_Type'', ''isError'', ''Client_Action'', ''Transaction_Reason_Text'',
                   ''composite_key''],
        rows = [[Str ''E1-Comp'', Str ''TRUE'', Str ''ActComp'', Str ''Sales'', Str ''ERR1|Sales'']]\<rparr>
       \<lparr>columns = [''Error_Type'', ''file_type_2'', ''Client_Error_Type'', ''Client Action''],
        rows = [[''ERR1'', ''Sales'', ''E1-Comp'', ''ActComp''], [''ERR1'', '''', ''E1-Simple'', ''ActSimple'']]\<rparr>
       [True] (Some [True])
     = Inr (\<lparr>columns = [''Error_Type'', ''isError'', ''Client_Action'', ''Transaction_Reason_Text'',
                        ''composite_key''],
             rows = [[Str ''E1-Comp'', Str ''TRUE'', Str ''ActComp'', Str ''Sales'', Str ''ERR1|Sales'']]\<rparr>,
            None, 0)
   \<and> apply_error_mapping
       \<lparr>columns = [''Error_Type'', ''isError'', ''Client_Action'', ''Transaction_Reason_Text''],
        rows = [[Str ''ERR1'', Str ''TRUE'', Str '''', Str ''Sales'']]\<rparr>
       \<lparr>columns = [''Error_Type'', ''file_type_2'', ''Client_Error_Type'', ''Client Action''],
        rows = [[''ERR1'', ''Sales'', ''E1-Comp'', ''ActComp''], [''ERR1'', '''', ''E1-Simple'', ''ActSimple'']]\<rparr>
     = (\<lparr>columns = [''Error_Type'', ''isError'', ''Client_Action''],
         rows = [[Str ''E1-Comp'', Str ''TRUE'', Str ''ActComp'']]\<rparr>,
        Coverage 1 1 [] False)"
  by code_simp

text \<open>
  C8, as the code has it, for a run of the engine that does not fail. The reason text of
  a row is the translation of its Transaction_Reason or, in records with no
  Transaction_Reason column, its cell in a column named Transaction_Reason_Text. Tier 1
  runs when the mapping table has a file_type_2 column and the records have one of these
  two columns. An error row whose key Error_Type|reason text is then the key of a rule is
  returned with the Client_Error_Type and the Client Action of the composite rule, also
  when its Error_Type is a key of the simple index. Every other error row, and every
  error row when tier 1 does not run, is handled by tier 2: its Error_Type is returned
  rewritten by the simple index when it is a key of that index, and as it came otherwise.
\<close>

theorem tier1_first_then_tier2_on_the_rest:
  assumes wf: "wf_frame ack_df"
    and et: "''Error_Type'' \<in> set (columns ack_df)" and ie: "''isError'' \<in> set (columns ack_df)"
    and ok: "\<forall>e. snd (apply_error_mapping ack_df mapping_df) \<noteq> Failed e"
    and i: "i < length (rows ack_df)" and err: "error_rows_of ack_df ! i"
  shows "\<exists>r. (if ''Transaction_Reason'' \<in> set (columns ack_df)
              then \<exists>t. get_transaction_reason_text (series ack_df ''Transaction_Reason'' ! i) = Inr t \<and> r = Str t
              else r = series ack_df ''Transaction_Reason_Text'' ! i)
     \<and> ((''Transaction_Reason'' \<in> set (columns ack_df) \<or> ''Transaction_Reason_Text'' \<in> set (columns ack_df))
        \<and> ''file_type_2'' \<in> set (columns mapping_df)
        \<and> astype_str (series ack_df ''Error_Type'' ! i) @ ''|'' @ astype_str r
             \<in> set (mapping_composite_keys (series mapping_df ''Error_Type'') (series mapping_df ''file_type_2''))
        \<longrightarrow>
          series (fst (apply_error_mapping ack_df mapping_df)) ''Error_Type'' ! i
            = series_map (dict_zip (mapping_composite_keys (series mapping_df ''Error_Type'')
                                      (series mapping_df ''file_type_2''))
                            (series mapping_df ''Client_Error_Type''))
                (Str (astype_str (series ack_df ''Error_Type'' ! i) @ ''|'' @ astype_str r))
        \<and> (''Client_Action'' \<in> set (columns ack_df) \<longrightarrow>
             series (fst (apply_error_mapping ack_df mapping_df)) ''Client_Action'' ! i
               = fillna (series_map (dict_zip (mapping_composite_keys (series mapping_df ''Error_Type'')
                                                 (series mapping_df ''file_type_2''))
                                       (series mapping_df ''Client Action''))
                   (Str (astype_str (series ack_df ''Error_Type'' ! i) @ ''|'' @ astype_str r)))))
     \<and> (\<not> ((''Transaction_Reason'' \<in> set (columns ack_df) \<or> ''Transaction_Reason_Text'' \<in> set (columns ack_df))
        \<and> ''file_type_2'' \<in> set (columns mapping_df)
        \<and> astype_str (series ack_df ''Error_Type'' ! i) @ ''|'' @ astype_str r
             \<in> set (mapping_composite_keys (series mapping_df ''Error_Type'') (series mapping_df ''file_type_2'')))
        \<longrightarrow>
          series (fst (apply_error_mapping ack_df mapping_df)) ''Error_Type'' ! i
            = (if isin (dict_zip (series mapping_df ''Error_Type'') (series mapping_df ''Client_Error_Type''))
                    (series ack_df ''Error_Type'' ! i)
               then series_map (dict_zip (series mapping_df ''Error_Type'') (series mapping_df ''Client_Error_Type''))
                      (series ack_df ''Error_Type'' ! i)
               else series ack_df ''Error_Type'' ! i))"
proof -
  let ?er = "error_rows_of ack_df"
  let ?out = "fst (apply_error_mapping ack_df mapping_df)"
  let ?mkeys = "mapping_composite_keys (series mapping_df ''Error_Type'') (series mapping_df ''file_type_2'')"
  have "i < length ?er" using i by simp
  then have any: "any_true ?er" unfolding any_true_iff using err by blast
  obtain df1 df2 em a1 df3 smm a2 rep where
    r1: "add_reason_text ack_df = Inr df1"
    and r2: "strategy1 df1 mapping_df ?er = Inr (df2, em, a1)"
    and r3: "strategy2 df2 mapping_df ?er em = Inr (df3, smm, a2)"
    and r4: "finish_mapping df3 ?er em smm (a1 + a2) = Inr (?out, rep)"
    using engine_runs_stages[OF et ie any ok] by blast
  note f1 = add_reason_text_frame[OF wf r1]
  note row = add_reason_text_row[OF wf r1 i]
  have et1: "''Error_Type'' \<in> set (columns df1)" using et f1(3) by simp
  have l1: "length ?er = length (rows df1)" using f1(2) by simp
  have i1: "i < length (rows df1)" using i f1(2) by simp
  note f2 = strategy1_frame[OF f1(1) l1 et1 r2]
  have et2: "''Error_Type'' \<in> set (columns df2)" using et1 f2(3) by simp
  have l2: "length ?er = length (rows df2)" using f2(2) l1 by simp
  have lem: "\<forall>msk. em = Some msk \<longrightarrow> length msk = length (rows df2)" using f2(4) f2(2) by simp
  note f3 = strategy2_frame[OF f2(1) l2 lem et2 r3]
  have et3: "''Error_Type'' \<in> set (columns df3)" using et2 f3(3) by simp
  have out: "?out = drop_columns (drop_columns df3 [''composite_key'']) [''Transaction_Reason_Text'']"
    using finish_mapping_frame[OF r4] .
  have oet: "series ?out ''Error_Type'' = series df3 ''Error_Type''"
    by (rule engine_out_series[OF f3(1) et3 _ _ out]) simp_all
  have oca: "''Client_Action'' \<in> set (columns ack_df) \<Longrightarrow>
      series ?out ''Client_Action'' = series df3 ''Client_Action''"
  proof -
    assume "''Client_Action'' \<in> set (columns ack_df)"
    then have "''Client_Action'' \<in> set (columns df1)" using f1(3) by simp
    then have "''Client_Action'' \<in> set (columns df2)" using f2(3) by simp
    then have c3: "''Client_Action'' \<in> set (columns df3)" using f3(3) by simp
    show ?thesis by (rule engine_out_series[OF f3(1) c3 _ _ out]) simp_all
  qed
  have ca1: "''Client_Action'' \<in> set (columns df1) \<Longrightarrow> ''Client_Action'' \<in> set (columns ack_df)"
    using f1(3) by (simp split: if_splits)
  have s10: "series df1 ''Error_Type'' = series ack_df ''Error_Type''"
    by (rule f1(4)[OF et]) simp
  define r where "r = series df1 ''Transaction_Reason_Text'' ! i"
  have key: "ack_composite_keys df1 ! i = astype_str (series ack_df ''Error_Type'' ! i) @ ''|'' @ astype_str r"
    using ack_composite_keys_nth[OF i1] s10 r_def by simp
  have R: "if ''Transaction_Reason'' \<in> set (columns ack_df)
              then \<exists>t. get_transaction_reason_text (series ack_df ''Transaction_Reason'' ! i) = Inr t \<and> r = Str t
              else r = series ack_df ''Transaction_Reason_Text'' ! i"
  proof (cases "''Transaction_Reason'' \<in> set (columns ack_df)")
    case True
    then show ?thesis using row(2) r_def by simp
  next
    case False
    then have "df1 = ack_df" using row(3) by simp
    then show ?thesis using False r_def by simp
  qed
  note sv = stage_row_values[OF f1(1) l1 et1 r2 r3 i1 err]
  have A: "(''Transaction_Reason'' \<in> set (columns ack_df) \<or> ''Transaction_Reason_Text'' \<in> set (columns ack_df))
        \<and> ''file_type_2'' \<in> set (columns mapping_df)
        \<and> astype_str (series ack_df ''Error_Type'' ! i) @ ''|'' @ astype_str r \<in> set ?mkeys
        \<longrightarrow>
          series ?out ''Error_Type'' ! i
            = series_map (dict_zip ?mkeys (series mapping_df ''Client_Error_Type''))
                (Str (astype_str (series ack_df ''Error_Type'' ! i) @ ''|'' @ astype_str r))
        \<and> (''Client_Action'' \<in> set (columns ack_df) \<longrightarrow>
             series ?out ''Client_Action'' ! i
               = fillna (series_map (dict_zip ?mkeys (series mapping_df ''Client Action''))
                   (Str (astype_str (series ack_df ''Error_Type'' ! i) @ ''|'' @ astype_str r))))"
  proof (intro impI)
    assume h: "(''Transaction_Reason'' \<in> set (columns ack_df) \<or> ''Transaction_Reason_Text'' \<in> set (columns ack_df))
        \<and> ''file_type_2'' \<in> set (columns mapping_df)
        \<and> astype_str (series ack_df ''Error_Type'' ! i) @ ''|'' @ astype_str r \<in> set ?mkeys"
    have g1: "''Transaction_Reason_Text'' \<in> set (columns df1)" using h row(1) by simp
    have g2: "''file_type_2'' \<in> set (columns mapping_df)" using h by simp
    have g3: "ack_composite_keys df1 ! i \<in> set ?mkeys" using h key by simp
    note v = sv(1)[OF g1 g2 g3, unfolded key]
    have v1: "series df3 ''Error_Type'' ! i
            = series_map (dict_zip ?mkeys (series mapping_df ''Client_Error_Type''))
                (Str (astype_str (series ack_df ''Error_Type'' ! i) @ ''|'' @ astype_str r))"
      using v by (rule conjunct1)
    have v2: "''Client_Action'' \<in> set (columns df1) \<longrightarrow>
             series df3 ''Client_Action'' ! i
               = fillna (series_map (dict_zip ?mkeys (series mapping_df ''Client Action''))
                   (Str (astype_str (series ack_df ''Error_Type'' ! i) @ ''|'' @ astype_str r)))"
      using v by (rule conjunct2)
    have ca: "''Client_Action'' \<in> set (columns ack_df) \<Longrightarrow> ''Client_Action'' \<in> set (columns df1)"
      using f1(3) by simp
    show "series ?out ''Error_Type'' ! i
            = series_map (dict_zip ?mkeys (series mapping_df ''Client_Error_Type''))
                (Str (astype_str (series ack_df ''Error_Type'' ! i) @ ''|'' @ astype_str r))
        \<and> (''Client_Action'' \<in> set (columns ack_df) \<longrightarrow>
             series ?out ''Client_Action'' ! i
               = fillna (series_map (dict_zip ?mkeys (series mapping_df ''Client Action''))
                   (Str (astype_str (series ack_df ''Error_Type'' ! i) @ ''|'' @ astype_str r))))"
      using v1 v2 oet oca ca by simp
  qed
  have B: "\<not> ((''Transaction_Reason'' \<in> set (columns ack_df) \<or> ''Transaction_Reason_Text'' \<in> set (columns ack_df))
        \<and> ''file_type_2'' \<in> set (columns mapping_df)
        \<and> astype_str (series ack_df ''Error_Type'' ! i) @ ''|'' @ astype_str r \<in> set ?mkeys)
        \<longrightarrow>
          series ?out ''Error_Type'' ! i
            = (if isin (dict_zip (series mapping_df ''Error_Type'') (series mapping_df ''Client_Error_Type''))
                    (series ack_df ''Error_Type'' ! i)
               then series_map (dict_zip (series mapping_df ''Error_Type'') (series mapping_df ''Client_Error_Type''))
                      (series ack_df ''Error_Type'' ! i)
               else series ack_df ''Error_Type'' ! i)"
  proof (intro impI)
    assume h: "\<not> ((''Transaction_Reason'' \<in> set (columns ack_df) \<or> ''Transaction_Reason_Text'' \<in> set (columns ack_df))
        \<and> ''file_type_2'' \<in> set (columns mapping_df)
        \<and> astype_str (series ack_df ''Error_Type'' ! i) @ ''|'' @ astype_str r \<in> set ?mkeys)"
    have n: "\<not> (''Transaction_Reason_Text'' \<in> set (columns df1) \<and> ''file_type_2'' \<in> set (columns mapping_df)
          \<and> ack_composite_keys df1 ! i \<in> set ?mkeys)"
      using h row(1) key by simp
    note v = sv(2)[OF n, unfolded s10]
    show "series ?out ''Error_Type'' ! i
            = (if isin (dict_zip (series mapping_df ''Error_Type'') (series mapping_df ''Client_Error_Type''))
                    (series ack_df ''Error_Type'' ! i)
               then series_map (dict_zip (series mapping_df ''Error_Type'') (series mapping_df ''Client_Error_Type''))
                      (series ack_df ''Error_Type'' ! i)
               else series ack_df ''Error_Type'' ! i)"
      using v oet by simp
  qed
  show ?thesis using R A B by (intro exI[of _ r] conjI)
qed

theorem tier1_first_then_tier2_on_the_rest_witness:
  "wf_frame \<lparr>columns = [''Error_Type'', ''isError'', ''Client_Action'', ''Transaction_Reason''],
             rows = [[Str ''ERR1'', Str ''TRUE'', Str '''', Intg 1],
                     [Str ''ERR1'', Str ''TRUE'', Str '''', Intg 2],
                     [Str ''ERR9'', Str ''TRUE'', Str ''keep'', Intg 2]]\<rparr>
   \<and> error_rows_of \<lparr>columns = [''Error_Type'', ''isError'', ''Client_Action'', ''Transaction_Reason''],
             rows = [[Str ''ERR1'', Str ''TRUE'', Str '''', Intg 1],
                     [Str ''ERR1'', Str ''TRUE'', Str '''', Intg 2],
                     [Str ''ERR9'', Str ''TRUE'', Str ''keep'', Intg 2]]\<rparr> = [True, True, True]
   \<and> snd (apply_error_mapping
       \<lparr>columns = [''Error_Type'', ''isError'', ''Client_Action'', ''Transaction_Reason''],
        rows = [[Str ''ERR1'', Str ''TRUE'', Str '''', Intg 1],
                [Str ''ERR1'', Str ''TRUE'', Str '''', Intg 2],
                [Str ''ERR9'', Str ''TRUE'', Str ''keep'', Intg 2]]\<rparr>
       \<lparr>columns = [''Error_Type'', ''file_type_2'', ''Client_Error_Type'', ''Client Action''],
        rows = [[''ERR1'', ''Sales'', ''E1-Comp'', ''ActComp''], [''ERR1'', '''', ''E1-Simple'', ''ActSimple'']]\<rparr>)
     = Coverage 2 3 [''ERR9''] False
   \<and> series (fst (apply_error_mapping
       \<lparr>columns = [''Error_Type'', ''isError'', ''Client_Action'', ''Transaction_Reason''],
        rows = [[Str ''ERR1'', Str ''TRUE'', Str '''', Intg 1],
                [Str ''ERR1'', Str ''TRUE'', Str '''', Intg 2],
                [Str ''ERR9'', Str ''TRUE'', Str ''keep'', Intg 2]]\<rparr>
       \<lparr>columns = [''Error_Type'', ''file_type_2'', ''Client_Error_Type'', ''Client Action''],
        rows = [[''ERR1'', ''Sales'', ''E1-Comp'', ''ActComp''], [''ERR1'', '''', ''E1-Simple'', ''ActSimple'']]\<rparr>))
       ''Error_Type'' ! 0 = Str ''E1-Comp''
   \<and> series (fst (apply_error_mapping
       \<lparr>columns = [''Error_Type'', ''isError'', ''Client_Action'', ''Transaction_Reason''],
        rows = [[Str ''ERR1'', Str ''TRUE'', Str '''', Intg 1],
                [Str ''ERR1'', Str ''TRUE'', Str '''', Intg 2],
                [Str ''ERR9'', Str ''TRUE'', Str ''keep'', Intg 2]]\<rparr>
       \<lparr>columns = [''Error_Type'', ''file_type_2'', ''Client_Error_Type'', ''Client Action''],
        rows = [[''ERR1'', ''Sales'', ''E1-Comp'', ''ActComp''], [''ERR1'', '''', ''E1-Simple'', ''ActSimple'']]\<rparr>))
       ''Client_Action'' ! 0 = Str ''ActComp''
   \<and> series (fst (apply_error_mapping
       \<lparr>columns = [''Error_Type'', ''isError'', ''Client_Action'', ''Transaction_Reason''],
        rows = [[Str ''ERR1'', Str ''TRUE'', Str '''', Intg 1],
                [Str ''ERR1'', Str ''TRUE'', Str '''', Intg 2],
                [Str ''ERR9'', Str ''TRUE'', Str ''keep'', Intg 2]]\<rparr>
       \<lparr>columns = [''Error_Type'', ''file_type_2'', ''Client_Error_Type'', ''Client Action''],
        rows = [[''ERR1'', ''Sales'', ''E1-Comp'', ''ActComp''], [''ERR1'', '''', ''E1-Simple'', ''ActSimple'']]\<rparr>))
       ''Error_Type'' ! 1 = Str ''E1-Simple''
   \<and> series (fst (apply_error_mapping
       \<lparr>columns = [''Error_Type'', ''isError'', ''Client_Action'', ''Transaction_Reason''],
        rows = [[Str ''ERR1'', Str ''TRUE'', Str '''', Intg 1],
                [Str ''ERR1'', Str ''TRUE'', Str '''', Intg 2],
                [Str ''ERR9'', Str ''TRUE'', Str ''keep'', Intg 2]]\<rparr>
       \<lparr>columns = [''Error_Type'', ''file_type_2'', ''Client_Error_Type'', ''Client Action''],
        rows = [[''ERR1'', ''Sales'', ''E1-Comp'', ''ActComp''], [''ERR1'', '''', ''E1-Simple'', ''ActSimple'']]\<rparr>))
       ''Error_Type'' ! 2 = Str ''ERR9''"
proof -
  define a where "a = \<lparr>columns = [''Error_Type'', ''isError'', ''Client_Action'', ''Transaction_Reason''],
             rows = [[Str ''ERR1'', Str ''TRUE'', Str '''', Intg 1],
                     [Str ''ERR1'', Str ''TRUE'', Str '''', Intg 2],
                     [Str ''ERR9'', Str ''TRUE'', Str ''keep'', Intg 2]]\<rparr>"
  define m where "m = \<lparr>columns = [''Error_Type'', ''file_type_2'', ''Client_Error_Type'', ''Client Action''],
        rows = [[''ERR1'', ''Sales'', ''E1-Comp'', ''ActComp''], [''ERR1'', '''', ''E1-Simple'', ''ActSimple'']]\<rparr>"
  let ?P = "\<lambda>i r. (''Transaction_Reason'' \<in> set (columns a) \<or> ''Transaction_Reason_Text'' \<in> set (columns a))
        \<and> ''file_type_2'' \<in> set (columns m)
        \<and> astype_str (series a ''Error_Type'' ! i) @ ''|'' @ astype_str r
             \<in> set (mapping_composite_keys (series m ''Error_Type'') (series m ''file_type_2''))"
  have wf: "wf_frame a" unfolding a_def by code_simp
  have et: "''Error_Type'' \<in> set (columns a)" unfolding a_def by simp
  have ie: "''isError'' \<in> set (columns a)" unfolding a_def by simp
  have tr: "''Transaction_Reason'' \<in> set (columns a)" unfolding a_def by simp
  have ca: "''Client_Action'' \<in> set (columns a)" unfolding a_def by simp
  have er: "error_rows_of a = [True, True, True]" unfolding a_def by code_simp
  have rep: "snd (apply_error_mapping a m) = Coverage 2 3 [''ERR9''] False"
    unfolding a_def m_def by code_simp
  have ok: "\<forall>e. snd (apply_error_mapping a m) \<noteq> Failed e" using rep by simp
  have n: "length (rows a) = 3" unfolding a_def by simp
  have g0: "get_transaction_reason_text (series a ''Transaction_Reason'' ! 0) = Inr ''Sales''"
    unfolding a_def by code_simp
  have g1: "get_transaction_reason_text (series a ''Transaction_Reason'' ! 1) = Inr ''Payments''"
    unfolding a_def by code_simp
  have g2: "get_transaction_reason_text (series a ''Transaction_Reason'' ! 2) = Inr ''Payments''"
    unfolding a_def by code_simp
  have p0: "?P 0 (Str ''Sales'')" unfolding a_def m_def by code_simp
  have p1: "\<not> ?P 1 (Str ''Payments'')" unfolding a_def m_def by code_simp
  have p2: "\<not> ?P 2 (Str ''Payments'')" unfolding a_def m_def by code_simp
  have q0: "series_map (dict_zip (mapping_composite_keys (series m ''Error_Type'') (series m ''file_type_2''))
                            (series m ''Client_Error_Type''))
                (Str (astype_str (series a ''Error_Type'' ! 0) @ ''|'' @ astype_str (Str ''Sales'')))
            = Str ''E1-Comp''"
    unfolding a_def m_def by code_simp
  have q0': "fillna (series_map (dict_zip (mapping_composite_keys (series m ''Error_Type'') (series m ''file_type_2''))
                            (series m ''Client Action''))
                (Str (astype_str (series a ''Error_Type'' ! 0) @ ''|'' @ astype_str (Str ''Sales''))))
            = Str ''ActComp''"
    unfolding a_def m_def by code_simp
  have q1: "(if isin (dict_zip (series m ''Error_Type'') (series m ''Client_Error_Type'')) (series a ''Error_Type'' ! 1)
               then series_map (dict_zip (series m ''Error_Type'') (series m ''Client_Error_Type''))
                      (series a ''Error_Type'' ! 1)
               else series a ''Error_Type'' ! 1) = Str ''E1-Simple''"
    unfolding a_def m_def by code_simp
  have q2: "(if isin (dict_zip (series m ''Error_Type'') (series m ''Client_Error_Type'')) (series a ''Error_Type'' ! 2)
               then series_map (dict_zip (series m ''Error_Type'') (series m ''Client_Error_Type''))
                      (series a ''Error_Type'' ! 2)
               else series a ''Error_Type'' ! 2) = Str ''ERR9''"
    unfolding a_def m_def by code_simp
  have i0: "0 < length (rows a)" and i1: "1 < length (rows a)" and i2: "2 < length (rows a)"
    using n by simp_all
  have e0: "error_rows_of a ! 0" and e1: "error_rows_of a ! 1" and e2: "error_rows_of a ! 2"
    using er by simp_all
  have c0: "series (fst (apply_error_mapping a m)) ''Error_Type'' ! 0 = Str ''E1-Comp''
          \<and> series (fst (apply_error_mapping a m)) ''Client_Action'' ! 0 = Str ''ActComp''"
  proof -
    from tier1_first_then_tier2_on_the_rest [OF wf et ie ok i0 e0]
    obtain r where r: "if ''Transaction_Reason'' \<in> set (columns a)
              then \<exists>t. get_transaction_reason_text (series a ''Transaction_Reason'' ! 0) = Inr t \<and> r = Str t
              else r = series a ''Transaction_Reason_Text'' ! 0"
      and v: "?P 0 r \<longrightarrow>
          series (fst (apply_error_mapping a m)) ''Error_Type'' ! 0
            = series_map (dict_zip (mapping_composite_keys (series m ''Error_Type'') (series m ''file_type_2''))
                            (series m ''Client_Error_Type''))
                (Str (astype_str (series a ''Error_Type'' ! 0) @ ''|'' @ astype_str r))
        \<and> (''Client_Action'' \<in> set (columns a) \<longrightarrow>
             series (fst (apply_error_mapping a m)) ''Client_Action'' ! 0
               = fillna (series_map (dict_zip (mapping_composite_keys (series m ''Error_Type'') (series m ''file_type_2''))
                                       (series m ''Client Action''))
                   (Str (astype_str (series a ''Error_Type'' ! 0) @ ''|'' @ astype_str r))))"
      by blast
    have req: "r = Str ''Sales''" using r tr g0 by auto
    from v[unfolded req] p0 have w: "series (fst (apply_error_mapping a m)) ''Error_Type'' ! 0
            = series_map (dict_zip (mapping_composite_keys (series m ''Error_Type'') (series m ''file_type_2''))
                            (series m ''Client_Error_Type''))
                (Str (astype_str (series a ''Error_Type'' ! 0) @ ''|'' @ astype_str (Str ''Sales'')))
        \<and> (''Client_Action'' \<in> set (columns a) \<longrightarrow>
             series (fst (apply_error_mapping a m)) ''Client_Action'' ! 0
               = fillna (series_map (dict_zip (mapping_composite_keys (series m ''Error_Type'') (series m ''file_type_2''))
                                       (series m ''Client Action''))
                   (Str (astype_str (series a ''Error_Type'' ! 0) @ ''|'' @ astype_str (Str ''Sales'')))))"
      by (rule mp)
    have w1: "series (fst (apply_error_mapping a m)) ''Error_Type'' ! 0 = Str ''E1-Comp''"
      using conjunct1[OF w] q0 by (rule trans)
    have w2: "series (fst (apply_error_mapping a m)) ''Client_Action'' ! 0 = Str ''ActComp''"
      using mp[OF conjunct2[OF w] ca] q0' by (rule trans)
    show ?thesis using w1 w2 by (rule conjI)
  qed
  have c1: "series (fst (apply_error_mapping a m)) ''Error_Type'' ! 1 = Str ''E1-Simple''"
  proof -
    from tier1_first_then_tier2_on_the_rest [OF wf et ie ok i1 e1]
    obtain r where r: "if ''Transaction_Reason'' \<in> set (columns a)
              then \<exists>t. get_transaction_reason_text (series a ''Transaction_Reason'' ! 1) = Inr t \<and> r = Str t
              else r = series a ''Transaction_Reason_Text'' ! 1"
      and v: "\<not> ?P 1 r \<longrightarrow>
          series (fst (apply_error_mapping a m)) ''Error_Type'' ! 1
            = (if isin (dict_zip (series m ''Error_Type'') (series m ''Client_Error_Type'')) (series a ''Error_Type'' ! 1)
               then series_map (dict_zip (series m ''Error_Type'') (series m ''Client_Error_Type''))
                      (series a ''Error_Type'' ! 1)
               else series a ''Error_Type'' ! 1)"
      by blast
    have req: "r = Str ''Payments''" using r tr g1 by auto
    from v[unfolded req] p1 have "series (fst (apply_error_mapping a m)) ''Error_Type'' ! 1
            = (if isin (dict_zip (series m ''Error_Type'') (series m ''Client_Error_Type'')) (series a ''Error_Type'' ! 1)
               then series_map (dict_zip (series m ''Error_Type'') (series m ''Client_Error_Type''))
                      (series a ''Error_Type'' ! 1)
               else series a ''Error_Type'' ! 1)"
      by (rule mp)
    then show ?thesis using q1 by (rule trans)
  qed
  have c2: "series (fst (apply_error_mapping a m)) ''Error_Type'' ! 2 = Str ''ERR9''"
  proof -
    from tier1_first_then_tier2_on_the_rest [OF wf et ie ok i2 e2]
    obtain r where r: "if ''Transaction_Reason'' \<in> set (columns a)
              then \<exists>t. get_transaction_reason_text (series a ''Transaction_Reason'' ! 2) = Inr t \<and> r = Str t
              else r = series a ''Transaction_Reason_Text'' ! 2"
      and v: "\<not> ?P 2 r \<longrightarrow>
          series (fst (apply_error_mapping a m)) ''Error_Type'' ! 2
            = (if isin (dict_zip (series m ''Error_Type'') (series m ''Client_Error_Type'')) (series a ''Error_Type'' ! 2)
               then series_map (dict_zip (series m ''Error_Type'') (series m ''Client_Error_Type''))
                      (series a ''Error_Type'' ! 2)
               else series a ''Error_Type'' ! 2)"
      by blast
    have req: "r = Str ''Payments''" using r tr g2 by auto
    from v[unfolded req] p2 have "series (fst (apply_error_mapping a m)) ''Error_Type'' ! 2
            = (if isin (dict_zip (series m ''Error_Type'') (series m ''Client_Error_Type'')) (series a ''Error_Type'' ! 2)
               then series_map (dict_zip (series m ''Error_Type'') (series m ''Client_Error_Type''))
                      (series a ''Error_Type'' ! 2)
               else series a ''Error_Type'' ! 2)"
      by (rule mp)
    then show ?thesis using q2 by (rule trans)
  qed
  show ?thesis
    using wf er rep c0 c1 c2 unfolding a_def m_def by (intro conjI) (elim conjE, assumption)+
qed
subsection \<open>Record Transform Pipeline\<close>

text \<open>
  C2: the last step replaces a cell by the empty string if and only if the whole cell is
  the text nan, and leaves every other cell unchanged. The code calls
  \<open>replace("nan", "", regex=True)\<close>, which cuts the pattern out of every cell that
  contains it: the cell Fernando leaves the pipeline as Ferdo.
\<close>

theorem nan_cut_out_of_longer_cell:
  "process_csv_file
     \<lparr>columns = [''Customer_Last_Name''], rows = [[Str ''Fernando''], [NaN]]\<rparr> '''' False None
   = Inr \<lparr>columns = [''Customer_Last_Name'', ''Source_Filename'', ''Client_Action''],
       rows = [[Str ''Ferdo'', Str '''', Str ''''], [Str '''', Str '''', Str '''']]\<rparr>"
  by code_simp






end
